theory Spec2Isabelle
  imports Main "HOL-Library.Word" "HOL-Library.Stream"
begin

unbundle bit_operations_syntax

section \<open>The imputation controller (merged_sepsis_news/src/controller.py)\<close>

text \<open>
  The controller receives a feature vector (a Planter header behind an Ethernet header)
  from the switch as a PacketIn, replaces zero-valued numeric features by random plausible
  values, appends one CSV row per replaced value, and hands the frame back to the switch by
  PacketOut. A second thread sends one heartbeat Sensor frame per patient every
  \<open>HEARTBEAT_NS\<close> seconds.

  Conventions of the embedding:
  \<^item> wire bytes are \<open>8 word\<close>, header fields are words of the declared field width;
  \<^item> Python integers (sensor ids, imputed values) are \<open>int\<close>; the header fields own
    the names \<open>sensor_id\<close> and \<open>patient_id\<close>, so the loop variable and the local of
    \<open>parse_packet\<close> are written \<open>sensor\<close> and \<open>pid\<close>;
  \<^item> the module-level random generator is a stream of raw draws threaded through the
    state; \<open>random.randint a b\<close> consumes one draw;
  \<^item> the CSV file, standard output, the calls of \<open>switch_conn.PacketOut\<close> and the
    calls of \<open>time.sleep\<close> are lists in a \<open>world\<close> record, appended in program order;
  \<^item> an exception is a value of type \<open>exn\<close>; a function that can raise returns
    \<open>exn option\<close> (or a sum) next to the world it leaves behind. The calls that can
    raise are the dissection of the payload, the access to a feature by name and
    \<open>PacketOut\<close>; appending a row to the log file and printing always succeed.
\<close>

subsection \<open>Global configuration\<close>

type_synonym byte = "8 word"
type_synonym payload = "byte list"

definition CPU_PORT :: nat where
  "CPU_PORT = 510"

definition NUM_PATIENTS :: nat where
  "NUM_PATIENTS = 2000"

definition HEARTBEAT_NS :: nat where
  "HEARTBEAT_NS = 15"

definition ETHERTYPE_PLANTER :: "16 word" where
  "ETHERTYPE_PLANTER = 0x1234"

definition ETHERTYPE_SENSOR :: "16 word" where
  "ETHERTYPE_SENSOR = 0x1235"

subsection \<open>Headers\<close>

record Ether =
  dst :: payload
  src :: payload
  type :: "16 word"

record Planter =
  P :: byte
  Four :: byte
  version :: byte
  type :: byte
  patient_id :: "32 word"
  timestamp :: "48 word"
  feature0 :: "16 word"
  feature1 :: "16 word"
  feature2 :: "16 word"
  feature3 :: "16 word"
  feature4 :: "16 word"
  feature5 :: "16 word"
  feature6 :: "16 word"
  feature7 :: "16 word"
  feature8 :: "16 word"
  feature9 :: "16 word"
  result :: "32 word"

record Sensor =
  patient_id :: "32 word"
  sensor_id :: "32 word"
  timestamp :: "48 word"
  feature_value :: "16 word"

datatype exn = StructError | AttributeError | RpcError

subsection \<open>Wire formats\<close>

text \<open>
  Network byte order. \<open>be_word\<close> reads a big-endian field; \<open>pack_H\<close>, \<open>pack_I\<close> and
  \<open>pack_48\<close> write a ShortField, an IntField and the 48-bit BitField.
\<close>

fun be_word :: "payload \<Rightarrow> 'a::len word" where
  "be_word [] = 0"
| "be_word (b # bs) = push_bit (8 * length bs) (ucast b) OR be_word bs"

definition pack_H :: "16 word \<Rightarrow> payload" where
  "pack_H w = [ucast (drop_bit 8 w), ucast w]"

definition pack_I :: "32 word \<Rightarrow> payload" where
  "pack_I w = [ucast (drop_bit 24 w), ucast (drop_bit 16 w), ucast (drop_bit 8 w), ucast w]"

definition pack_48 :: "48 word \<Rightarrow> payload" where
  "pack_48 w = [ucast (drop_bit 40 w), ucast (drop_bit 32 w), ucast (drop_bit 24 w),
                ucast (drop_bit 16 w), ucast (drop_bit 8 w), ucast w]"

definition field :: "nat \<Rightarrow> nat \<Rightarrow> payload \<Rightarrow> 'a::len word" where
  "field off len bs = be_word (take len (drop off bs))"

definition Planter_dissect :: "payload \<Rightarrow> Planter" where
  "Planter_dissect bs =
     \<lparr> P = bs ! 0, Four = bs ! 1, version = bs ! 2, type = bs ! 3,
       patient_id = field 4 4 bs, timestamp = field 8 6 bs,
       feature0 = field 14 2 bs, feature1 = field 16 2 bs, feature2 = field 18 2 bs,
       feature3 = field 20 2 bs, feature4 = field 22 2 bs, feature5 = field 24 2 bs,
       feature6 = field 26 2 bs, feature7 = field 28 2 bs, feature8 = field 30 2 bs,
       feature9 = field 32 2 bs, result = field 34 4 bs \<rparr>"

definition Planter_build :: "Planter \<Rightarrow> payload" where
  "Planter_build p =
     [P p, Four p, version p, Planter.type p] @ pack_I (Planter.patient_id p)
      @ pack_48 (Planter.timestamp p)
      @ pack_H (feature0 p) @ pack_H (feature1 p) @ pack_H (feature2 p) @ pack_H (feature3 p)
      @ pack_H (feature4 p) @ pack_H (feature5 p) @ pack_H (feature6 p) @ pack_H (feature7 p)
      @ pack_H (feature8 p) @ pack_H (feature9 p) @ pack_I (result p)"

definition Sensor_dissect :: "payload \<Rightarrow> Sensor" where
  "Sensor_dissect bs =
     \<lparr> patient_id = field 0 4 bs, sensor_id = field 4 4 bs, timestamp = field 8 6 bs,
       feature_value = field 14 2 bs \<rparr>"

definition Sensor_build :: "Sensor \<Rightarrow> payload" where
  "Sensor_build s =
     pack_I (Sensor.patient_id s) @ pack_I (sensor_id s) @ pack_48 (Sensor.timestamp s)
      @ pack_H (feature_value s)"

text \<open>
  A dissected frame: the Ethernet header and the layer bound to its EtherType
  (\<open>bind_layers\<close>), with the bytes that follow that layer. Every other upper layer, and a
  bound layer whose bytes are too short to dissect, is \<open>Raw\<close>: scapy falls back to its raw
  layer when the dissection of a payload fails.
\<close>

datatype upper = Planter_layer Planter payload | Sensor_layer Sensor payload | Raw payload

type_synonym packet = "Ether \<times> upper"

text \<open>
  \<open>Ether(raw_payload)\<close>. An empty payload is not dissected and gives the default
  header; fewer than the 14 bytes of the Ethernet header make the unpacking of a header
  field raise; a Planter or Sensor layer needs all of its 38 or 16 bytes, and what follows
  them is kept as padding. No field value is rejected: the Planter fields \<open>P\<close> and
  \<open>Four\<close> may hold any byte.
\<close>

definition Ether_default :: Ether where
  "Ether_default = \<lparr> dst = replicate 6 255, src = replicate 6 0, type = 0x9000 \<rparr>"

definition Ether_dissect :: "payload \<Rightarrow> exn + packet" where
  "Ether_dissect raw_payload =
     (if raw_payload = [] then Inr (Ether_default, Raw [])
      else if length raw_payload < 14 then Inl StructError
      else
        let hdr = \<lparr> dst = take 6 raw_payload, src = take 6 (drop 6 raw_payload),
                    type = field 12 2 raw_payload \<rparr>;
            rest = drop 14 raw_payload
        in if Ether.type hdr = ETHERTYPE_PLANTER \<and> 38 \<le> length rest
             then Inr (hdr, Planter_layer (Planter_dissect rest) (drop 38 rest))
           else if Ether.type hdr = ETHERTYPE_SENSOR \<and> 16 \<le> length rest
             then Inr (hdr, Sensor_layer (Sensor_dissect rest) (drop 16 rest))
           else Inr (hdr, Raw rest))"

definition raw :: "packet \<Rightarrow> payload" where
  "raw pkt =
     (case pkt of (hdr, up) \<Rightarrow>
        dst hdr @ src hdr @ pack_H (Ether.type hdr) @
        (case up of
           Planter_layer p pad \<Rightarrow> Planter_build p @ pad
         | Sensor_layer s pad \<Rightarrow> Sensor_build s @ pad
         | Raw bs \<Rightarrow> bs))"

text \<open>\<open>Planter in pkt\<close> and \<open>pkt[Planter]\<close>.\<close>

definition planter_of :: "packet \<Rightarrow> Planter option" where
  "planter_of pkt = (case snd pkt of Planter_layer p pad \<Rightarrow> Some p | _ \<Rightarrow> None)"

text \<open>
  The Planter layer is shared with the packet: \<open>setattr\<close> on it changes what
  \<open>raw(pkt)\<close> builds. \<open>with_planter\<close> puts the updated layer back.
\<close>

definition with_planter :: "packet \<Rightarrow> Planter \<Rightarrow> packet" where
  "with_planter pkt p =
     (case pkt of (hdr, up) \<Rightarrow>
        (hdr, case up of Planter_layer q pad \<Rightarrow> Planter_layer p pad | other \<Rightarrow> other))"

text \<open>
  \<open>getattr(planter, f"feature{sensor_id}")\<close> and the matching \<open>setattr\<close>. A name that is
  no field of the header raises AttributeError. The value stored by \<open>setattr\<close> is a Python
  integer that \<open>raw\<close> packs into 16 bits.
\<close>

definition getattr_feature :: "Planter \<Rightarrow> int \<Rightarrow> exn + 16 word" where
  "getattr_feature p sensor =
     (if sensor = 0 then Inr (feature0 p)
      else if sensor = 1 then Inr (feature1 p)
      else if sensor = 2 then Inr (feature2 p)
      else if sensor = 3 then Inr (feature3 p)
      else if sensor = 4 then Inr (feature4 p)
      else if sensor = 5 then Inr (feature5 p)
      else if sensor = 6 then Inr (feature6 p)
      else if sensor = 7 then Inr (feature7 p)
      else if sensor = 8 then Inr (feature8 p)
      else if sensor = 9 then Inr (feature9 p)
      else Inl AttributeError)"

definition setattr_feature :: "Planter \<Rightarrow> int \<Rightarrow> int \<Rightarrow> exn + Planter" where
  "setattr_feature p sensor v =
     (if sensor = 0 then Inr (p\<lparr>feature0 := word_of_int v\<rparr>)
      else if sensor = 1 then Inr (p\<lparr>feature1 := word_of_int v\<rparr>)
      else if sensor = 2 then Inr (p\<lparr>feature2 := word_of_int v\<rparr>)
      else if sensor = 3 then Inr (p\<lparr>feature3 := word_of_int v\<rparr>)
      else if sensor = 4 then Inr (p\<lparr>feature4 := word_of_int v\<rparr>)
      else if sensor = 5 then Inr (p\<lparr>feature5 := word_of_int v\<rparr>)
      else if sensor = 6 then Inr (p\<lparr>feature6 := word_of_int v\<rparr>)
      else if sensor = 7 then Inr (p\<lparr>feature7 := word_of_int v\<rparr>)
      else if sensor = 8 then Inr (p\<lparr>feature8 := word_of_int v\<rparr>)
      else if sensor = 9 then Inr (p\<lparr>feature9 := word_of_int v\<rparr>)
      else Inl AttributeError)"

subsection \<open>The entropy source\<close>

text \<open>
  \<open>random.randint a b\<close> returns an integer \<open>N\<close> with \<open>a \<le> N \<le> b\<close> and advances the
  generator. The generator is the stream of its raw draws; every value of the interval is
  reachable (draw \<open>N - a\<close>).
\<close>

type_synonym entropy = "nat stream"

definition randint :: "int \<Rightarrow> int \<Rightarrow> entropy \<Rightarrow> int \<times> entropy" where
  "randint a b g = (a + int (shd g mod nat (b - a + 1)), stl g)"

subsection \<open>Imputation helper\<close>

definition impute_value :: "int \<Rightarrow> entropy \<Rightarrow> int \<times> entropy" where
  "impute_value sensor g =
     (if sensor = 0 then randint 350 400 g
      else if sensor = 1 then randint 90 100 g
      else if sensor = 2 then randint 60 100 g
      else if sensor = 3 then randint 100 140 g
      else if sensor = 4 then randint 12 20 g
      else if sensor = 5 then randint 0 3 g
      else if sensor = 6 then randint 0 1 g
      else if sensor = 7 then (1, g)
      else if sensor = 8 then randint 30 80 g
      else if sensor = 9 then randint 0 1 g
      else (1, g))"

subsection \<open>The world of the controller\<close>

text \<open>
  A row of the imputation log: reception time, patient id, sensor id, old value, new value.
  The header row written when the module is loaded is not part of \<open>csv_log\<close>.
\<close>

type_synonym csv_row = "string \<times> 32 word \<times> int \<times> 16 word \<times> int"

datatype msg =
    No_Planter_header
  | Imputing string int "32 word" "16 word" int
  | Modified_Planter string "32 word" Planter
  | Complete_Planter string "32 word" Planter
  | Sending_PacketOut string nat
  | Error_parsing_packet exn
  | Received_PacketIn nat
  | Grpc_error
  | Error_sending_heartbeat nat exn
  | Sent_heartbeats

text \<open>
  \<open>rpc_fails k\<close> says whether the call number \<open>k\<close> (from 0) of \<open>switch_conn.PacketOut\<close>
  raises. \<open>packet_out_calls\<close> lists the payload of every call, \<open>packet_out_done\<close> those
  of the calls that returned.
\<close>

record world =
  rng :: entropy
  rpc_fails :: "nat \<Rightarrow> bool"
  packet_out_calls :: "payload list"
  packet_out_done :: "payload list"
  csv_log :: "csv_row list"
  stdout :: "msg list"
  sleeps :: "nat list"

definition py_print :: "msg \<Rightarrow> world \<Rightarrow> world" where
  "py_print m w = w\<lparr>stdout := stdout w @ [m]\<rparr>"

definition sleep :: "nat \<Rightarrow> world \<Rightarrow> world" where
  "sleep secs w = w\<lparr>sleeps := sleeps w @ [secs]\<rparr>"

definition PacketOut :: "payload \<Rightarrow> world \<Rightarrow> exn option \<times> world" where
  "PacketOut bytes w =
     (let k = length (packet_out_calls w);
          w' = w\<lparr>packet_out_calls := packet_out_calls w @ [bytes]\<rparr>
      in if rpc_fails w k then (Some RpcError, w')
         else (None, w'\<lparr>packet_out_done := packet_out_done w' @ [bytes]\<rparr>))"

definition log_imputation :: "string \<Rightarrow> 32 word \<Rightarrow> int \<Rightarrow> 16 word \<Rightarrow> int \<Rightarrow> world \<Rightarrow> world" where
  "log_imputation recv_time pid sensor old_val new_val w =
     w\<lparr>csv_log := csv_log w @ [(recv_time, pid, sensor, old_val, new_val)]\<rparr>"

subsection \<open>Heartbeat sender thread\<close>

definition heartbeat_pkt :: "nat \<Rightarrow> packet" where
  "heartbeat_pkt pid =
     (\<lparr> dst = [0x00, 0x04, 0x00, 0x00, 0x00, 0x00], src = [0x08, 0x00, 0x27, 0xbc, 0xfc, 0xb5],
        type = ETHERTYPE_SENSOR \<rparr>,
      Sensor_layer \<lparr> patient_id = of_nat pid, sensor_id = 999, timestamp = 0,
                     feature_value = 0 \<rparr> [])"

text \<open>The body of \<open>for pid in range(NUM_PATIENTS)\<close>.\<close>

definition send_heartbeat :: "nat \<Rightarrow> world \<Rightarrow> world" where
  "send_heartbeat pid w =
     (case PacketOut (raw (heartbeat_pkt pid)) w of
        (None, w') \<Rightarrow> w'
      | (Some e, w') \<Rightarrow> py_print (Error_sending_heartbeat pid e) w')"

text \<open>One iteration of \<open>while True\<close>.\<close>

definition heartbeat_tick :: "world \<Rightarrow> world" where
  "heartbeat_tick w =
     sleep HEARTBEAT_NS (py_print Sent_heartbeats (fold send_heartbeat [0..<NUM_PATIENTS] w))"

text \<open>
  \<open>heartbeat_loop\<close> never returns; \<open>heartbeat_loop n\<close> is the world after its first \<open>n\<close>
  iterations.
\<close>

fun heartbeat_loop :: "nat \<Rightarrow> world \<Rightarrow> world" where
  "heartbeat_loop 0 w = w"
| "heartbeat_loop (Suc n) w = heartbeat_loop n (heartbeat_tick w)"

subsection \<open>Parse and process packet\<close>

text \<open>
  The body of \<open>for sensor_id in range(10)\<close>, on the loop state (planter, imputed, world).
  An exception leaves the state as it was when it was raised.
\<close>

type_synonym loop_state = "Planter \<times> bool \<times> world"

definition impute_feature :: "string \<Rightarrow> 32 word \<Rightarrow> int \<Rightarrow> loop_state \<Rightarrow> exn option \<times> loop_state" where
  "impute_feature recv_time pid sensor s =
     (case s of (planter, imputed, w) \<Rightarrow>
        if sensor \<in> set [5, 6, 7, 8, 9] then (None, s)
        else
          (case getattr_feature planter sensor of
             Inl e \<Rightarrow> (Some e, s)
           | Inr cur_val \<Rightarrow>
               if cur_val = 0 then
                 (case impute_value sensor (rng w) of (new_val, g) \<Rightarrow>
                    let w1 = log_imputation recv_time pid sensor cur_val new_val (w\<lparr>rng := g\<rparr>);
                        w2 = py_print (Imputing recv_time sensor pid cur_val new_val) w1
                    in (case setattr_feature planter sensor new_val of
                          Inl e \<Rightarrow> (Some e, (planter, imputed, w2))
                        | Inr planter' \<Rightarrow> (None, (planter', True, w2))))
               else (None, s)))"

fun impute_loop :: "string \<Rightarrow> 32 word \<Rightarrow> int list \<Rightarrow> loop_state \<Rightarrow> exn option \<times> loop_state" where
  "impute_loop recv_time pid [] s = (None, s)"
| "impute_loop recv_time pid (sensor # rest) s =
     (case impute_feature recv_time pid sensor s of
        (Some e, s') \<Rightarrow> (Some e, s')
      | (None, s') \<Rightarrow> impute_loop recv_time pid rest s')"

text \<open>
  The \<open>try\<close> block of \<open>parse_packet\<close>; \<open>now\<close> is what \<open>datetime.now()\<close> formats to.
\<close>

definition parse_packet_try :: "string \<Rightarrow> payload \<Rightarrow> world \<Rightarrow> exn option \<times> world" where
  "parse_packet_try now raw_payload w =
     (case Ether_dissect raw_payload of
        Inl e \<Rightarrow> (Some e, w)
      | Inr pkt \<Rightarrow>
          (case planter_of pkt of
             None \<Rightarrow> (None, py_print No_Planter_header w)
           | Some planter \<Rightarrow>
               let recv_time = now; pid = Planter.patient_id planter in
               (case impute_loop recv_time pid [0..9] (planter, False, w) of
                  (Some e, (planter', imputed, w1)) \<Rightarrow> (Some e, w1)
                | (None, (planter', imputed, w1)) \<Rightarrow>
                    let w2 = (if imputed then py_print (Modified_Planter recv_time pid planter') w1
                              else py_print (Complete_Planter recv_time pid planter') w1);
                        bytes = raw (with_planter pkt planter');
                        w3 = py_print (Sending_PacketOut recv_time CPU_PORT) w2
                    in PacketOut bytes w3)))"

definition parse_packet :: "string \<Rightarrow> payload \<Rightarrow> world \<Rightarrow> world" where
  "parse_packet now raw_payload w =
     (case parse_packet_try now raw_payload w of
        (None, w') \<Rightarrow> w'
      | (Some e, w') \<Rightarrow> py_print (Error_parsing_packet e) w')"

subsection \<open>Packet-in handler\<close>

text \<open>
  What \<open>switch_conn.PacketIn()\<close> gives: a message with a payload, nothing, or an RPC
  error, which \<open>handle_packet_in\<close> catches and prints.
\<close>

datatype packet_in = PktIn payload | No_PktIn | PktIn_RpcError

definition handle_packet_in :: "string \<times> packet_in \<Rightarrow> world \<Rightarrow> world" where
  "handle_packet_in ev w =
     (case ev of (now, pktin) \<Rightarrow>
        (case pktin of
           PktIn bytes \<Rightarrow> parse_packet now bytes (py_print (Received_PacketIn (length bytes)) w)
         | No_PktIn \<Rightarrow> w
         | PktIn_RpcError \<Rightarrow> py_print Grpc_error w))"

text \<open>
  The \<open>while True\<close> of \<open>main\<close>, run on the PacketIn events that arrive (with the clock
  reading at each).
\<close>

definition packet_in_loop :: "(string \<times> packet_in) list \<Rightarrow> world \<Rightarrow> world" where
  "packet_in_loop evs w = fold handle_packet_in evs w"

subsection \<open>Reading a slot\<close>

text \<open>
  The value of slot \<open>j\<close> as the loop reads it, \<open>getattr(planter, f"feature{j}")\<close>, as a
  Python integer (0 where there is no such field).
\<close>

definition slot_value :: "Planter \<Rightarrow> int \<Rightarrow> int" where
  "slot_value p j = (case getattr_feature p j of Inr v \<Rightarrow> uint v | Inl e \<Rightarrow> 0)"

text \<open>The rows that a step from world \<open>w\<close> to world \<open>w'\<close> appended to the log.\<close>

definition new_rows :: "world \<Rightarrow> world \<Rightarrow> csv_row list" where
  "new_rows w w' = drop (length (csv_log w)) (csv_log w')"

definition row_sensor :: "csv_row \<Rightarrow> int" where
  "row_sensor row = (case row of (reception_time, pid, sensor, old_value, new_value) \<Rightarrow> sensor)"

definition row_old_value :: "csv_row \<Rightarrow> 16 word" where
  "row_old_value row =
     (case row of (reception_time, pid, sensor, old_value, new_value) \<Rightarrow> old_value)"

text \<open>The payloads of the \<open>PacketOut\<close> calls made on the way from \<open>w\<close> to \<open>w'\<close>.\<close>

definition new_calls :: "world \<Rightarrow> world \<Rightarrow> payload list" where
  "new_calls w w' = drop (length (packet_out_calls w)) (packet_out_calls w')"

text \<open>The world \<open>w\<close> with the lines \<open>ls\<close> printed before everything it has printed.\<close>

definition printed_before :: "msg list \<Rightarrow> world \<Rightarrow> world" where
  "printed_before ls w = w\<lparr>stdout := ls @ stdout w\<rparr>"

text \<open>
  The payloads that \<open>parse_packet\<close> cannot decode into a feature vector: the dissection
  raises, or the dissected packet has no Planter layer. \<open>drop_message\<close> is the line printed
  for such a payload.
\<close>

definition decoding_fails :: "payload \<Rightarrow> bool" where
  "decoding_fails bytes =
     (case Ether_dissect bytes of Inl e \<Rightarrow> True | Inr pkt \<Rightarrow> planter_of pkt = None)"

definition drop_message :: "payload \<Rightarrow> msg" where
  "drop_message bytes =
     (case Ether_dissect bytes of Inl e \<Rightarrow> Error_parsing_packet e | Inr pkt \<Rightarrow> No_Planter_header)"

subsection \<open>Sensor readings (src/sensors\_simulator.py)\<close>

text \<open>
  The frame that \<open>send_sensor_packet\<close> of the sensor simulator builds for a reading. The
  simulator leaves the source address to the sending interface; it is a parameter here.
\<close>

definition send_sensor_packet :: "payload \<Rightarrow> nat \<Rightarrow> nat \<Rightarrow> nat \<Rightarrow> nat \<Rightarrow> packet" where
  "send_sensor_packet iface_mac pid sensor timestamp_val value =
     (\<lparr> dst = [0x00, 0x04, 0x00, 0x00, 0x00, 0x00], src = iface_mac, type = ETHERTYPE_SENSOR \<rparr>,
      Sensor_layer \<lparr> patient_id = of_nat pid, sensor_id = of_nat sensor,
                     timestamp = of_nat timestamp_val, feature_value = of_nat value \<rparr> [])"

subsection \<open>Example inputs\<close>

text \<open>
  A world with nothing sent or logged yet, a switch connection that never fails, and a
  generator whose raw draws are 25, 26, 27, ...
\<close>

definition world0 :: world where
  "world0 = \<lparr> rng = siterate Suc 25, rpc_fails = (\<lambda>k. False), packet_out_calls = [],
              packet_out_done = [], csv_log = [], stdout = [], sleeps = [] \<rparr>"

definition hdr0 :: Ether where
  "hdr0 = \<lparr> dst = [0x08, 0x00, 0x27, 0xbc, 0xfc, 0xb5], src = [0x00, 0x04, 0x00, 0x00, 0x00, 0x00],
            type = ETHERTYPE_PLANTER \<rparr>"

text \<open>Patient 1000 with sensors 0 to 5 observed and 6 to 9 absent.\<close>

definition planter_six :: Planter where
  "planter_six = \<lparr> P = 0x50, Four = 0x34, version = 1, type = 1, patient_id = 1000, timestamp = 7,
      feature0 = 372, feature1 = 97, feature2 = 80, feature3 = 120, feature4 = 16, feature5 = 1,
      feature6 = 0, feature7 = 0, feature8 = 0, feature9 = 0, result = 0 \<rparr>"

text \<open>Patient 17 with temperature and pulse absent, and zeros in slots 5, 7 and 9.\<close>

definition planter_gaps :: Planter where
  "planter_gaps = \<lparr> P = 0x50, Four = 0x34, version = 1, type = 1, patient_id = 17, timestamp = 9,
      feature0 = 0, feature1 = 97, feature2 = 0, feature3 = 120, feature4 = 16, feature5 = 0,
      feature6 = 1, feature7 = 0, feature8 = 45, feature9 = 0, result = 0 \<rparr>"

text \<open>Patient 3 with every sensor observed; AVPU (slot 5) reads 0, alert, and sex (slot 9) 0.\<close>

definition planter_alert :: Planter where
  "planter_alert = \<lparr> P = 0x50, Four = 0x34, version = 1, type = 1, patient_id = 3, timestamp = 4,
      feature0 = 372, feature1 = 97, feature2 = 80, feature3 = 120, feature4 = 16, feature5 = 0,
      feature6 = 1, feature7 = 1, feature8 = 45, feature9 = 0, result = 0 \<rparr>"

text \<open>A connection on which the second call of \<open>PacketOut\<close> (call number 1) raises.\<close>

definition world_flaky :: world where
  "world_flaky = world0\<lparr>rpc_fails := (\<lambda>k. k = 1)\<rparr>"

definition frame_of :: "Planter \<Rightarrow> payload" where
  "frame_of p = raw (hdr0, Planter_layer p [])"

section \<open>The window store and the submission gate\<close>

text \<open>
  The per-patient windows are kept by the switch pipeline, whose program is not among the
  sources: the sources hold the controller, which sees a window only once the switch has
  handed it over as a Planter frame, and the senders of readings. What follows is the
  window store and the submission gate as sections 3, 4.1 and 4.4 of the specification
  describe them. Events are handled one at a time, as section 5 requires for the events of
  one patient.
\<close>

text \<open>Modelled from the spec: the number of sensor slots of a window, missing from the
  sources with the switch program (section 3: N is 10 in observed usage).\<close>

definition N_SLOTS :: nat where
  "N_SLOTS = 10"

text \<open>Modelled from the spec: the staleness threshold of the switch program (section 4.4:
  60 s in the observed deployment).\<close>

definition WINDOW_TIMEOUT :: nat where
  "WINDOW_TIMEOUT = 60"

text \<open>Modelled from the spec: the Patient Window of the switch program (section 3). The
  field \<open>window_no\<close> numbers the windows of a patient in the order in which they are
  created; no operation reads it, it names the window in the statements.\<close>

record window =
  window_no :: nat
  slots :: "nat \<Rightarrow> int option"
  window_timestamp :: nat
  first_seen_at :: nat
  last_update_at :: nat
  finalized :: bool
  imputed_slots :: "nat list"

text \<open>Modelled from the spec: the window map of the switch program (section 5: patient id
  to Patient Window), with the count of the windows each patient has had.\<close>

record window_store =
  windows :: "nat \<Rightarrow> window option"
  opened :: "nat \<Rightarrow> nat"

text \<open>Modelled from the spec: the store of the switch program before any reading.\<close>

definition empty_store :: window_store where
  "empty_store = \<lparr> windows = (\<lambda>pid. None), opened = (\<lambda>pid. 0) \<rparr>"

text \<open>Modelled from the spec: window creation in the switch program (section 3: a window is
  created implicitly on the first reading for a patient that is not tracked).\<close>

definition new_window :: "nat \<Rightarrow> nat \<Rightarrow> nat \<Rightarrow> window" where
  "new_window no ts now =
     \<lparr> window_no = no, slots = (\<lambda>i. None), window_timestamp = ts, first_seen_at = now,
       last_update_at = now, finalized = False, imputed_slots = [] \<rparr>"

text \<open>Modelled from the spec: the current window of a patient for an incoming reading, in
  the switch program (section 4.1: the window is created if absent; if it is already
  finalized the reading starts a fresh window).\<close>

definition current_window :: "window_store \<Rightarrow> nat \<Rightarrow> nat \<Rightarrow> nat \<Rightarrow> window_store \<times> window" where
  "current_window st pid ts now =
     (case windows st pid of
        Some w \<Rightarrow>
          if finalized w
          then (st\<lparr>opened := (opened st)(pid := Suc (opened st pid))\<rparr>,
                new_window (opened st pid) ts now)
          else (st, w)
      | None \<Rightarrow>
          (st\<lparr>opened := (opened st)(pid := Suc (opened st pid))\<rparr>,
           new_window (opened st pid) ts now))"

text \<open>Modelled from the spec: \<open>update_slot\<close> of the switch program (sections 4.1 and 7): a
  sensor id outside 0..N-1 is ignored; a slot that already holds an observed value rejects
  the write silently; otherwise the value is stored.\<close>

definition update_slot :: "window_store \<Rightarrow> nat \<Rightarrow> nat \<Rightarrow> int \<Rightarrow> nat \<Rightarrow> nat \<Rightarrow> window_store" where
  "update_slot st pid sensor value ts now =
     (if N_SLOTS \<le> sensor then st
      else
        (case current_window st pid ts now of (st1, w) \<Rightarrow>
           (case slots w sensor of
              Some observed \<Rightarrow> st1\<lparr>windows := (windows st1)(pid \<mapsto> w)\<rparr>
            | None \<Rightarrow>
                st1\<lparr>windows := (windows st1)(pid \<mapsto>
                      w\<lparr>slots := (slots w)(sensor \<mapsto> value), last_update_at := now\<rparr>)\<rparr>)))"

text \<open>Modelled from the spec: \<open>is_complete\<close> of the switch program (section 4.1: all N
  slots are observed).\<close>

definition is_complete :: "window_store \<Rightarrow> nat \<Rightarrow> bool" where
  "is_complete st pid =
     (case windows st pid of
        None \<Rightarrow> False
      | Some w \<Rightarrow> list_all (\<lambda>i. slots w i \<noteq> None) [0..<N_SLOTS])"

text \<open>Modelled from the spec: \<open>snapshot_and_clear\<close> of the switch program (section 4.1): one
  step returns the window and resets the patient to the empty state.\<close>

definition snapshot_and_clear :: "window_store \<Rightarrow> nat \<Rightarrow> window option \<times> window_store" where
  "snapshot_and_clear st pid = (windows st pid, st\<lparr>windows := (windows st)(pid := None)\<rparr>)"

text \<open>Modelled from the spec: the feature vector submitted to the inference channel by the
  switch program (section 6), with the window it was made from.\<close>

record submission =
  sub_patient :: nat
  sub_window :: nat
  sub_timestamp :: nat
  sub_vector :: "int list"
  sub_imputed :: "nat list"

text \<open>Modelled from the spec: the Imputation Engine applied to the slots of a window at
  finalization, in the switch program (section 4.2): an observed slot gives its value, a
  missing slot a value drawn by \<open>impute_value\<close> for its index. The result is the vector,
  the indices imputed, and the generator.\<close>

fun fill_slots :: "nat list \<Rightarrow> (nat \<Rightarrow> int option) \<Rightarrow> entropy \<Rightarrow> int list \<times> nat list \<times> entropy" where
  "fill_slots [] sl g = ([], [], g)"
| "fill_slots (i # rest) sl g =
     (case sl i of
        Some v \<Rightarrow> (case fill_slots rest sl g of (vs, imp, g') \<Rightarrow> (v # vs, imp, g'))
      | None \<Rightarrow>
          (case impute_value (int i) g of (v, g1) \<Rightarrow>
             (case fill_slots rest sl g1 of (vs, imp, g') \<Rightarrow> (v # vs, i # imp, g'))))"

text \<open>Modelled from the spec: a reading as the switch program ingests it (section 6:
  patient id, sensor id, timestamp, value; sensor id 999 is the heartbeat).\<close>

datatype reading = Reading nat nat nat int

text \<open>Modelled from the spec: finalization in the switch program (sections 4.1 and 4.4):
  the window is taken out of the store by \<open>snapshot_and_clear\<close>, its missing slots are
  imputed, and the vector is the submission.\<close>

definition finalize :: "window_store \<times> entropy \<Rightarrow> nat \<Rightarrow> submission option \<times> (window_store \<times> entropy)" where
  "finalize s pid =
     (case s of (st, g) \<Rightarrow>
        (case snapshot_and_clear st pid of
           (None, st') \<Rightarrow> (None, (st', g))
         | (Some w, st') \<Rightarrow>
             (case fill_slots [0..<N_SLOTS] (slots w) g of (vs, imp, g') \<Rightarrow>
                (Some \<lparr> sub_patient = pid, sub_window = window_no w,
                        sub_timestamp = window_timestamp w, sub_vector = vs,
                        sub_imputed = imp \<rparr>,
                 (st', g')))))"

text \<open>Modelled from the spec: the Submission Gate of the switch program (section 4.4), for
  one ingested event at wall-clock time \<open>now\<close>. A heartbeat (sensor id 999) finalizes the
  patient's window if there is one, it is at least \<open>WINDOW_TIMEOUT\<close> old and a slot is
  still missing; with no window it does nothing. A sensor reading updates its slot and finalizes the window at
  once if that completes it.\<close>

definition ingest :: "nat \<Rightarrow> reading \<Rightarrow> window_store \<times> entropy \<Rightarrow> submission option \<times> (window_store \<times> entropy)" where
  "ingest now r s =
     (case r of Reading pid sensor ts value \<Rightarrow>
        (case s of (st, g) \<Rightarrow>
           if sensor = 999 then
             (case windows st pid of
                None \<Rightarrow> (None, s)
              | Some w \<Rightarrow>
                  if WINDOW_TIMEOUT \<le> now - first_seen_at w \<and> \<not> is_complete st pid
                  then finalize s pid else (None, s))
           else
             (let st1 = update_slot st pid sensor value ts now
              in if is_complete st1 pid then finalize (st1, g) pid else (None, (st1, g)))))"

text \<open>Modelled from the spec: the switch program run on a sequence of ingested events, each
  with its wall-clock time; the result lists the submissions in the order they are made.\<close>

fun ingest_all :: "(nat \<times> reading) list \<Rightarrow> window_store \<times> entropy \<Rightarrow> submission list \<times> (window_store \<times> entropy)" where
  "ingest_all [] s = ([], s)"
| "ingest_all (ev # evs) s =
     (case ingest (fst ev) (snd ev) s of (out, s1) \<Rightarrow>
        (case ingest_all evs s1 of (subs, s2) \<Rightarrow>
           ((case out of None \<Rightarrow> [] | Some sub \<Rightarrow> [sub]) @ subs, s2)))"

text \<open>Modelled from the spec: a sequence of \<open>update_slot\<close> calls on the store of the switch
  program, each call given as (patient, sensor, value, timestamp, time).\<close>

definition update_slots :: "(nat \<times> nat \<times> int \<times> nat \<times> nat) list \<Rightarrow> window_store \<Rightarrow> window_store" where
  "update_slots calls st =
     fold (\<lambda>c st. case c of (pid, sensor, value, ts, now) \<Rightarrow> update_slot st pid sensor value ts now)
       calls st"

text \<open>The value that a patient's current window holds in a slot, if any.\<close>

definition slot_of :: "window_store \<Rightarrow> nat \<Rightarrow> nat \<Rightarrow> int option" where
  "slot_of st pid sensor =
     (case windows st pid of None \<Rightarrow> None | Some w \<Rightarrow> slots w sensor)"

text \<open>
  The windows in the store are numbered below \<open>opened\<close> and are not finalized, and every
  submission made so far came from an earlier window of its patient than the one in the
  store, or than the next one to be created.
\<close>

definition gate_inv :: "window_store \<Rightarrow> submission list \<Rightarrow> bool" where
  "gate_inv st subs =
     (\<forall>pid.
        (case windows st pid of
           None \<Rightarrow> (\<forall>s\<in>set subs. sub_patient s = pid \<longrightarrow> sub_window s < opened st pid)
         | Some w \<Rightarrow>
             window_no w < opened st pid \<and> \<not> finalized w
             \<and> (\<forall>s\<in>set subs. sub_patient s = pid \<longrightarrow> sub_window s < window_no w)))"

text \<open>
  Two orders of the same events for patient 7: nine readings, then either the completing
  reading and two heartbeat ticks, or a tick that finds the window stale, the late reading
  and another tick.
\<close>

definition nine_readings :: "(nat \<times> reading) list" where
  "nine_readings =
     [(0, Reading 7 0 100 372), (0, Reading 7 1 100 97), (0, Reading 7 2 100 80),
      (0, Reading 7 3 100 120), (0, Reading 7 4 100 16), (0, Reading 7 5 100 1),
      (0, Reading 7 6 100 1), (0, Reading 7 7 100 1), (0, Reading 7 8 100 45)]"

definition completing_then_ticks :: "(nat \<times> reading) list" where
  "completing_then_ticks =
     nine_readings @ [(1, Reading 7 9 100 1), (61, Reading 7 999 0 0), (76, Reading 7 999 0 0)]"

definition tick_then_completing :: "(nat \<times> reading) list" where
  "tick_then_completing =
     nine_readings @ [(61, Reading 7 999 0 0), (62, Reading 7 9 100 1), (76, Reading 7 999 0 0)]"

section \<open>Properties\<close>

subsection \<open>The entropy source and the imputation ranges\<close>

lemma randint_range:
  assumes "a \<le> b"
  shows "a \<le> fst (randint a b g)" and "fst (randint a b g) \<le> b"
proof -
  have pos: "0 < nat (b - a + 1)" using assms by simp
  have "shd g mod nat (b - a + 1) < nat (b - a + 1)"
    using pos by (rule mod_less_divisor)
  then have "int (shd g mod nat (b - a + 1)) \<le> b - a" by linarith
  then show "fst (randint a b g) \<le> b" by (simp add: randint_def)
  show "a \<le> fst (randint a b g)" by (simp add: randint_def)
qed

text \<open>
  C3. For every sensor id and every state of the generator, \<open>impute_value\<close> returns a
  value inside the range configured for that sensor: temperature (0) in 350..400, oxygen
  saturation (1) in 90..100, pulse (2) in 60..100, systolic blood pressure (3) in 100..140,
  respiratory rate (4) in 12..20, AVPU (5) in 0..3, the binary flags (6 and 9) in 0..1,
  age (8) in 30..80; every other index (7 and anything outside 0..9) yields the constant 1.
\<close>

theorem impute_value_in_range:
  "fst (impute_value 0 g) \<in> {350..400} \<and>
   fst (impute_value 1 g) \<in> {90..100} \<and>
   fst (impute_value 2 g) \<in> {60..100} \<and>
   fst (impute_value 3 g) \<in> {100..140} \<and>
   fst (impute_value 4 g) \<in> {12..20} \<and>
   fst (impute_value 5 g) \<in> {0, 1, 2, 3} \<and>
   fst (impute_value 6 g) \<in> {0, 1} \<and>
   fst (impute_value 9 g) \<in> {0, 1} \<and>
   fst (impute_value 8 g) \<in> {30..80} \<and>
   (sensor \<notin> {0, 1, 2, 3, 4, 5, 6, 8, 9} \<longrightarrow> impute_value sensor g = (1, g))"
proof -
  have r0: "fst (impute_value 0 g) \<in> {350..400}"
    using randint_range [of 350 400 g] by (simp add: impute_value_def)
  have r1: "fst (impute_value 1 g) \<in> {90..100}"
    using randint_range [of 90 100 g] by (simp add: impute_value_def)
  have r2: "fst (impute_value 2 g) \<in> {60..100}"
    using randint_range [of 60 100 g] by (simp add: impute_value_def)
  have r3: "fst (impute_value 3 g) \<in> {100..140}"
    using randint_range [of 100 140 g] by (simp add: impute_value_def)
  have r4: "fst (impute_value 4 g) \<in> {12..20}"
    using randint_range [of 12 20 g] by (simp add: impute_value_def)
  have "0 \<le> fst (impute_value 5 g) \<and> fst (impute_value 5 g) \<le> 3"
    using randint_range [of 0 3 g] by (simp add: impute_value_def)
  then have r5: "fst (impute_value 5 g) \<in> {0, 1, 2, 3}" by auto
  have "0 \<le> fst (impute_value 6 g) \<and> fst (impute_value 6 g) \<le> 1"
    using randint_range [of 0 1 g] by (simp add: impute_value_def)
  then have r6: "fst (impute_value 6 g) \<in> {0, 1}" by auto
  have "0 \<le> fst (impute_value 9 g) \<and> fst (impute_value 9 g) \<le> 1"
    using randint_range [of 0 1 g] by (simp add: impute_value_def)
  then have r9: "fst (impute_value 9 g) \<in> {0, 1}" by auto
  have r8: "fst (impute_value 8 g) \<in> {30..80}"
    using randint_range [of 30 80 g] by (simp add: impute_value_def)
  have rd: "sensor \<notin> {0, 1, 2, 3, 4, 5, 6, 8, 9} \<longrightarrow> impute_value sensor g = (1, g)"
    by (simp add: impute_value_def)
  from r0 r1 r2 r3 r4 r5 r6 r9 r8 rd show ?thesis by blast
qed

theorem impute_value_in_range_witness:
  "fst (impute_value 1 (siterate Suc 25)) = 93 \<and>
   fst (impute_value 1 (siterate Suc 25)) \<in> {90..100} \<and>
   (7::int) \<notin> {0, 1, 2, 3, 4, 5, 6, 8, 9} \<and>
   impute_value 7 (siterate Suc 25) = (1, siterate Suc 25) \<and>
   impute_value 999 (siterate Suc 25) = (1, siterate Suc 25)"
  using impute_value_in_range [of "siterate Suc 25" 7]
    impute_value_in_range [of "siterate Suc 25" 999]
  by (simp add: impute_value_def randint_def)

subsection \<open>Codec round trips\<close>

lemma be_word_pack_H: "be_word (pack_H w) = w"
  unfolding pack_H_def
  by (simp, rule bit_word_eqI, simp add: bit_simps cong: conj_cong) auto

lemma be_word_pack_I: "be_word (pack_I w) = w"
  unfolding pack_I_def
  by (simp, rule bit_word_eqI, simp add: bit_simps cong: conj_cong) auto

lemma be_word_pack_48: "be_word (pack_48 w) = w"
  unfolding pack_48_def
  by (simp, rule bit_word_eqI, simp add: bit_simps cong: conj_cong) auto

lemma length_pack: "length (pack_H h) = 2" "length (pack_I i) = 4" "length (pack_48 t) = 6"
  by (simp_all add: pack_H_def pack_I_def pack_48_def)

lemma length_Planter_build: "length (Planter_build p) = 38"
  by (simp add: Planter_build_def length_pack)

lemma Planter_dissect_build: "Planter_dissect (Planter_build p @ pad) = p"
  by (simp add: Planter_dissect_def Planter_build_def field_def length_pack
      be_word_pack_H be_word_pack_I be_word_pack_48 nth_append)

lemma length_Sensor_build: "length (Sensor_build s) = 16"
  by (simp add: Sensor_build_def length_pack)

lemma Sensor_dissect_build: "Sensor_dissect (Sensor_build s @ pad) = s"
  by (simp add: Sensor_dissect_def Sensor_build_def field_def length_pack
      be_word_pack_H be_word_pack_I be_word_pack_48)

lemma Ether_dissect_raw_Planter:
  assumes "length (dst hdr) = 6" "length (src hdr) = 6" "Ether.type hdr = ETHERTYPE_PLANTER"
  shows "Ether_dissect (raw (hdr, Planter_layer p pad)) = Inr (hdr, Planter_layer p pad)"
proof -
  let ?bs = "raw (hdr, Planter_layer p pad)"
  have bs: "?bs = dst hdr @ src hdr @ pack_H (Ether.type hdr) @ Planter_build p @ pad"
    by (simp add: raw_def)
  have ne: "?bs \<noteq> []" using assms(1) by (auto simp: bs)
  have len: "\<not> length ?bs < 14" by (simp add: bs assms length_pack)
  have h: "\<lparr> dst = take 6 ?bs, src = take 6 (drop 6 ?bs), type = field 12 2 ?bs \<rparr> = hdr"
    by (simp add: bs assms field_def length_pack be_word_pack_H)
  have r: "drop 14 ?bs = Planter_build p @ pad"
    by (simp add: bs assms length_pack)
  show ?thesis
    unfolding Ether_dissect_def Let_def h r
    using ne len assms(3)
    by (simp add: length_Planter_build Planter_dissect_build)
qed

lemma Ether_dissect_Planter_hdr:
  assumes "Ether_dissect bytes = Inr (hdr, Planter_layer p pad)"
  shows "length (dst hdr) = 6 \<and> length (src hdr) = 6 \<and> Ether.type hdr = ETHERTYPE_PLANTER"
  using assms
  by (auto simp: Ether_dissect_def Let_def split: if_splits)


subsection \<open>Feature access\<close>

lemma slot_cases:
  fixes j :: int
  assumes "0 \<le> j" "j \<le> 9"
  shows "j = 0 \<or> j = 1 \<or> j = 2 \<or> j = 3 \<or> j = 4 \<or> j = 5 \<or> j = 6 \<or> j = 7 \<or> j = 8 \<or> j = 9"
  using assms by arith

lemma numeric_cases:
  fixes j :: int
  assumes "0 \<le> j" "j \<le> 4"
  shows "j = 0 \<or> j = 1 \<or> j = 2 \<or> j = 3 \<or> j = 4"
  using assms by arith

lemma setattr_feature_total:
  assumes "0 \<le> j" "j \<le> 9"
  shows "\<exists>p'. setattr_feature p j v = Inr p'"
  using slot_cases [OF assms] by (auto simp: setattr_feature_def)

lemma getattr_setattr_same:
  assumes "setattr_feature p j v = Inr p'"
  shows "getattr_feature p' j = Inr (word_of_int v)"
  using assms
  by (auto simp: setattr_feature_def getattr_feature_def split: if_splits)

lemma getattr_setattr_other:
  assumes "setattr_feature p j v = Inr p'" "i \<noteq> j"
  shows "getattr_feature p' i = getattr_feature p i"
  using assms
  by (auto simp: setattr_feature_def getattr_feature_def split: if_splits)

lemma setattr_feature_header:
  assumes "setattr_feature p j v = Inr p'"
  shows "P p' = P p \<and> Four p' = Four p \<and> version p' = version p \<and> Planter.type p' = Planter.type p
    \<and> Planter.patient_id p' = Planter.patient_id p \<and> Planter.timestamp p' = Planter.timestamp p
    \<and> result p' = result p"
  using assms
  by (auto simp: setattr_feature_def split: if_splits)

lemma getattr_feature_total:
  assumes "0 \<le> j" "j \<le> 9"
  shows "\<exists>v. getattr_feature p j = Inr v"
  using slot_cases [OF assms] by (auto simp: getattr_feature_def)

subsection \<open>One iteration of the loop\<close>

lemma impute_feature_skip:
  assumes "5 \<le> sensor" "sensor \<le> 9"
  shows "impute_feature recv_time pid sensor s = (None, s)"
proof -
  have "sensor = 5 \<or> sensor = 6 \<or> sensor = 7 \<or> sensor = 8 \<or> sensor = 9"
    using assms by arith
  then show ?thesis
    by (auto simp: impute_feature_def split: prod.splits)
qed

lemma impute_feature_keep:
  assumes "getattr_feature p sensor = Inr v" "v \<noteq> 0"
  shows "impute_feature recv_time pid sensor (p, b, w) = (None, (p, b, w))"
  using assms by (simp add: impute_feature_def)

lemma impute_feature_zero:
  assumes "0 \<le> sensor" "sensor \<le> 4" "getattr_feature p sensor = Inr 0"
    and "impute_value sensor (rng w) = (new_val, g)"
  obtains p' where "setattr_feature p sensor new_val = Inr p'"
    and "impute_feature recv_time pid sensor (p, b, w) =
      (None, (p', True,
         w\<lparr>rng := g,
           csv_log := csv_log w @ [(recv_time, pid, sensor, 0, new_val)],
           stdout := stdout w @ [Imputing recv_time sensor pid 0 new_val]\<rparr>))"
proof -
  obtain p' where p': "setattr_feature p sensor new_val = Inr p'"
    using setattr_feature_total [of sensor p new_val] assms(1,2) by auto
  have nskip: "sensor \<notin> set [5, 6, 7, 8, 9]" using assms(2) by auto
  have "impute_feature recv_time pid sensor (p, b, w) =
      (None, (p', True,
         w\<lparr>rng := g,
           csv_log := csv_log w @ [(recv_time, pid, sensor, 0, new_val)],
           stdout := stdout w @ [Imputing recv_time sensor pid 0 new_val]\<rparr>))"
    unfolding impute_feature_def using nskip assms(3,4) p'
    by (simp add: log_imputation_def py_print_def Let_def)
  with p' show ?thesis by (rule that)
qed

text \<open>The values drawn for the numeric slots fit the 16-bit field and are not zero.\<close>

lemma impute_value_numeric:
  assumes "0 \<le> sensor" "sensor \<le> 4"
  shows "12 \<le> fst (impute_value sensor g)" and "fst (impute_value sensor g) \<le> 400"
proof -
  have c: "sensor = 0 \<or> sensor = 1 \<or> sensor = 2 \<or> sensor = 3 \<or> sensor = 4"
    using numeric_cases [OF assms] .
  have "12 \<le> fst (impute_value sensor g) \<and> fst (impute_value sensor g) \<le> 400"
    using c randint_range [of 350 400 g] randint_range [of 90 100 g] randint_range [of 60 100 g]
      randint_range [of 100 140 g] randint_range [of 12 20 g]
    by (auto simp: impute_value_def)
  then show "12 \<le> fst (impute_value sensor g)" and "fst (impute_value sensor g) \<le> 400"
    by simp_all
qed

lemma uint_word_of_int_16:
  assumes "0 \<le> v" "v \<le> 400"
  shows "uint (word_of_int v :: 16 word) = v"
  using assms by (simp add: uint_word_of_int)

lemma word_of_int_16_nonzero:
  assumes "12 \<le> v" "v \<le> 400"
  shows "(word_of_int v :: 16 word) \<noteq> 0"
proof
  assume "(word_of_int v :: 16 word) = 0"
  then have "uint (word_of_int v :: 16 word) = 0" by simp
  then show False using uint_word_of_int_16 [of v] assms by simp
qed

lemma getattr_feature_outside:
  assumes "sensor < 0 \<or> 9 < sensor"
  shows "getattr_feature p sensor = Inl AttributeError"
  using assms by (auto simp: getattr_feature_def)

lemma impute_feature_step:
  assumes "impute_feature recv_time pid x (p, b, w) = (r, (p1, b1, w1))"
  obtains
    (unchanged) "p1 = p" "b1 = b" "w1 = w" "0 \<le> x \<and> x \<le> 9 \<longrightarrow> r = None"
      "\<not> (0 \<le> x \<and> x \<le> 4 \<and> getattr_feature p x = Inr 0)"
  | (imputed) "r = None" "0 \<le> x" "x \<le> 4" "getattr_feature p x = Inr 0" "b1 = True"
      "setattr_feature p x (fst (impute_value x (rng w))) = Inr p1"
      "w1 = w\<lparr>rng := snd (impute_value x (rng w)),
              csv_log := csv_log w @ [(recv_time, pid, x, 0, fst (impute_value x (rng w)))],
              stdout := stdout w @ [Imputing recv_time x pid 0 (fst (impute_value x (rng w)))]\<rparr>"
proof (cases "0 \<le> x \<and> x \<le> 4 \<and> getattr_feature p x = Inr 0")
  case True
  obtain p' where p': "setattr_feature p x (fst (impute_value x (rng w))) = Inr p'"
    and eq: "impute_feature recv_time pid x (p, b, w) =
      (None, (p', True,
         w\<lparr>rng := snd (impute_value x (rng w)),
           csv_log := csv_log w @ [(recv_time, pid, x, 0, fst (impute_value x (rng w)))],
           stdout := stdout w @ [Imputing recv_time x pid 0 (fst (impute_value x (rng w)))]\<rparr>))"
    using True impute_feature_zero [of x p w "fst (impute_value x (rng w))" "snd (impute_value x (rng w))"
        recv_time pid b]
    by auto
  from eq assms have "r = None" "p1 = p'" "b1 = True"
    "w1 = w\<lparr>rng := snd (impute_value x (rng w)),
              csv_log := csv_log w @ [(recv_time, pid, x, 0, fst (impute_value x (rng w)))],
              stdout := stdout w @ [Imputing recv_time x pid 0 (fst (impute_value x (rng w)))]\<rparr>"
    by simp_all
  with True p' show ?thesis by (intro imputed) simp_all
next
  case False
  have same: "impute_feature recv_time pid x (p, b, w) =
      ((if 0 \<le> x \<and> x \<le> 9 then None else Some AttributeError), (p, b, w))"
  proof (cases "5 \<le> x \<and> x \<le> 9")
    case True
    then show ?thesis using impute_feature_skip [of x recv_time pid "(p, b, w)"] by simp
  next
    case nskip: False
    show ?thesis
    proof (cases "0 \<le> x \<and> x \<le> 4")
      case True
      then obtain v where v: "getattr_feature p x = Inr v"
        using getattr_feature_total [of x p] by auto
      with False True have "v \<noteq> 0" by auto
      with v True show ?thesis using impute_feature_keep [of p x v recv_time pid b w] by simp
    next
      case out: False
      with nskip have o: "x < 0 \<or> 9 < x" by arith
      then have "x \<notin> set [5, 6, 7, 8, 9]" by auto
      with o show ?thesis
        by (auto simp: impute_feature_def getattr_feature_outside)
    qed
  qed
  with assms have eqs: "r = (if 0 \<le> x \<and> x \<le> 9 then None else Some AttributeError)"
    "p1 = p" "b1 = b" "w1 = w"
    by simp_all
  from eqs(1) have "0 \<le> x \<and> x \<le> 9 \<longrightarrow> r = None" by simp
  with eqs False show ?thesis by (intro unchanged) simp_all
qed

subsection \<open>The loop over the ten slots\<close>

lemma impute_loop_Cons:
  assumes "impute_loop recv_time pid (x # xs) (p, b, w) = (r, (p', b', w'))"
    and "impute_feature recv_time pid x (p, b, w) = (r1, (p1, b1, w1))"
  shows "r1 = None \<Longrightarrow> impute_loop recv_time pid xs (p1, b1, w1) = (r, (p', b', w'))"
    and "r1 \<noteq> None \<Longrightarrow> r = r1 \<and> p' = p1 \<and> b' = b1 \<and> w' = w1"
  using assms by auto

lemma impute_loop_no_exn:
  assumes "\<forall>x\<in>set sensors. 0 \<le> x \<and> x \<le> 9"
    and "impute_loop recv_time pid sensors (p, b, w) = (r, (p', b', w'))"
  shows "r = None"
  using assms
proof (induction sensors arbitrary: p b w)
  case Nil
  then show ?case by simp
next
  case (Cons x xs)
  obtain r1 p1 b1 w1 where
    s: "impute_feature recv_time pid x (p, b, w) = (r1, (p1, b1, w1))"
    by (metis prod_cases3)
  note ok = impute_loop_Cons(1) [OF Cons.prems(2) s]
  note stop = impute_loop_Cons(2) [OF Cons.prems(2) s]
  have x: "0 \<le> x \<and> x \<le> 9" using Cons.prems(1) by simp
  from s have "r1 = None" by (rule impute_feature_step) (use x in simp_all)
  with ok Cons.IH [of p1 b1 w1] Cons.prems(1) show ?case by simp
qed

text \<open>The loop writes to the generator, the log and standard output, and to nothing else.\<close>

lemma impute_loop_world_frame:
  assumes "impute_loop recv_time pid sensors (p, b, w) = (r, (p', b', w'))"
  shows "rpc_fails w' = rpc_fails w \<and> packet_out_calls w' = packet_out_calls w
    \<and> packet_out_done w' = packet_out_done w \<and> sleeps w' = sleeps w"
  using assms
proof (induction sensors arbitrary: p b w)
  case Nil
  then show ?case by simp
next
  case (Cons x xs)
  obtain r1 p1 b1 w1 where
    s: "impute_feature recv_time pid x (p, b, w) = (r1, (p1, b1, w1))"
    by (metis prod_cases3)
  note ok = impute_loop_Cons(1) [OF Cons.prems(1) s]
  note stop = impute_loop_Cons(2) [OF Cons.prems(1) s]
  from s have f1: "rpc_fails w1 = rpc_fails w \<and> packet_out_calls w1 = packet_out_calls w
    \<and> packet_out_done w1 = packet_out_done w \<and> sleeps w1 = sleeps w"
    by (rule impute_feature_step) simp_all
  show ?case
  proof (cases "r1 = None")
    case True
    with ok Cons.IH [of p1 b1 w1] f1 show ?thesis by simp
  next
    case False
    with stop f1 show ?thesis by simp
  qed
qed

lemma impute_loop_header:
  assumes "impute_loop recv_time pid sensors (p, b, w) = (r, (p', b', w'))"
  shows "P p' = P p \<and> Four p' = Four p \<and> version p' = version p \<and> Planter.type p' = Planter.type p
    \<and> Planter.patient_id p' = Planter.patient_id p \<and> Planter.timestamp p' = Planter.timestamp p
    \<and> result p' = result p"
  using assms
proof (induction sensors arbitrary: p b w)
  case Nil
  then show ?case by simp
next
  case (Cons x xs)
  obtain r1 p1 b1 w1 where
    s: "impute_feature recv_time pid x (p, b, w) = (r1, (p1, b1, w1))"
    by (metis prod_cases3)
  note ok = impute_loop_Cons(1) [OF Cons.prems(1) s]
  note stop = impute_loop_Cons(2) [OF Cons.prems(1) s]
  from s have f1: "P p1 = P p \<and> Four p1 = Four p \<and> version p1 = version p
    \<and> Planter.type p1 = Planter.type p
    \<and> Planter.patient_id p1 = Planter.patient_id p \<and> Planter.timestamp p1 = Planter.timestamp p
    \<and> result p1 = result p"
  proof (cases rule: impute_feature_step)
    case unchanged
    then show ?thesis by simp
  next
    case imputed
    then show ?thesis using setattr_feature_header [of p x _ p1] by blast
  qed
  show ?case
  proof (cases "r1 = None")
    case True
    with ok Cons.IH [of p1 b1 w1] f1 show ?thesis by simp
  next
    case False
    with stop f1 show ?thesis by simp
  qed
qed

text \<open>A slot that holds a value other than zero keeps it.\<close>

lemma impute_loop_keeps_nonzero:
  assumes "impute_loop recv_time pid sensors (p, b, w) = (r, (p', b', w'))"
    and "getattr_feature p j = Inr v" "v \<noteq> 0"
  shows "getattr_feature p' j = Inr v"
  using assms
proof (induction sensors arbitrary: p b w)
  case Nil
  then show ?case by simp
next
  case (Cons x xs)
  obtain r1 p1 b1 w1 where
    s: "impute_feature recv_time pid x (p, b, w) = (r1, (p1, b1, w1))"
    by (metis prod_cases3)
  note ok = impute_loop_Cons(1) [OF Cons.prems(1) s]
  note stop = impute_loop_Cons(2) [OF Cons.prems(1) s]
  from s have f1: "getattr_feature p1 j = Inr v"
  proof (cases rule: impute_feature_step)
    case unchanged
    then show ?thesis using Cons.prems(2) by simp
  next
    case imputed
    with Cons.prems(2,3) have "j \<noteq> x" by auto
    with imputed(6) Cons.prems(2) show ?thesis
      using getattr_setattr_other [of p x _ p1 j] by simp
  qed
  show ?case
  proof (cases "r1 = None")
    case True
    with ok Cons.IH [of p1 b1 w1] f1 Cons.prems(3) show ?thesis by simp
  next
    case False
    with stop f1 show ?thesis by simp
  qed
qed

text \<open>A slot that the loop does not visit, and every slot from 5 on, is left as it is.\<close>

lemma impute_loop_untouched:
  assumes "impute_loop recv_time pid sensors (p, b, w) = (r, (p', b', w'))"
    and "j \<notin> set sensors \<or> 5 \<le> j"
  shows "getattr_feature p' j = getattr_feature p j"
  using assms
proof (induction sensors arbitrary: p b w)
  case Nil
  then show ?case by simp
next
  case (Cons x xs)
  obtain r1 p1 b1 w1 where
    s: "impute_feature recv_time pid x (p, b, w) = (r1, (p1, b1, w1))"
    by (metis prod_cases3)
  note ok = impute_loop_Cons(1) [OF Cons.prems(1) s]
  note stop = impute_loop_Cons(2) [OF Cons.prems(1) s]
  from s have f1: "getattr_feature p1 j = getattr_feature p j"
  proof (cases rule: impute_feature_step)
    case unchanged
    then show ?thesis by simp
  next
    case imputed
    with Cons.prems(2) have "j \<noteq> x" by auto
    with imputed(6) show ?thesis
      using getattr_setattr_other [of p x _ p1 j] by simp
  qed
  have rest: "j \<notin> set xs \<or> 5 \<le> j" using Cons.prems(2) by auto
  show ?case
  proof (cases "r1 = None")
    case True
    with ok Cons.IH [of p1 b1 w1] f1 rest show ?thesis by simp
  next
    case False
    with stop f1 show ?thesis by simp
  qed
qed

text \<open>The log only grows, and the flag, once set, stays set.\<close>

lemma impute_loop_monotone:
  assumes "impute_loop recv_time pid sensors (p, b, w) = (r, (p', b', w'))"
  shows "(\<exists>rows. csv_log w' = csv_log w @ rows) \<and> (b \<longrightarrow> b')"
  using assms
proof (induction sensors arbitrary: p b w)
  case Nil
  then show ?case by simp
next
  case (Cons x xs)
  obtain r1 p1 b1 w1 where
    s: "impute_feature recv_time pid x (p, b, w) = (r1, (p1, b1, w1))"
    by (metis prod_cases3)
  note ok = impute_loop_Cons(1) [OF Cons.prems(1) s]
  note stop = impute_loop_Cons(2) [OF Cons.prems(1) s]
  from s have f1: "(\<exists>rows. csv_log w1 = csv_log w @ rows) \<and> (b \<longrightarrow> b1)"
    by (rule impute_feature_step) simp_all
  show ?case
  proof (cases "r1 = None")
    case True
    with ok Cons.IH [of p1 b1 w1] f1 show ?thesis by auto
  next
    case False
    with stop f1 show ?thesis by simp
  qed
qed

text \<open>A numeric slot that holds zero when the loop reaches it is filled and logged.\<close>

lemma impute_loop_fills_zero:
  assumes "impute_loop recv_time pid sensors (p, b, w) = (r, (p', b', w'))"
    and "\<forall>x\<in>set sensors. 0 \<le> x \<and> x \<le> 9"
    and "j \<in> set sensors" "0 \<le> j" "j \<le> 4" "getattr_feature p j = Inr 0"
  shows "\<exists>g. getattr_feature p' j = Inr (word_of_int (fst (impute_value j g)))
    \<and> (recv_time, pid, j, 0, fst (impute_value j g)) \<in> set (csv_log w') \<and> b'"
  using assms
proof (induction sensors arbitrary: p b w)
  case Nil
  then show ?case by simp
next
  case (Cons x xs)
  obtain r1 p1 b1 w1 where
    s: "impute_feature recv_time pid x (p, b, w) = (r1, (p1, b1, w1))"
    by (metis prod_cases3)
  note ok = impute_loop_Cons(1) [OF Cons.prems(1) s]
  have x: "0 \<le> x \<and> x \<le> 9" using Cons.prems(2) by simp
  from s have r1: "r1 = None" by (rule impute_feature_step) (use x in simp_all)
  note rest = ok [OF r1]
  show ?case
  proof (cases "x = j")
    case True
    let ?v = "fst (impute_value j (rng w))"
    from s have st: "getattr_feature p1 j = Inr (word_of_int ?v)
      \<and> (recv_time, pid, j, 0, ?v) \<in> set (csv_log w1) \<and> b1"
    proof (cases rule: impute_feature_step)
      case unchanged
      with True Cons.prems(4,5,6) show ?thesis by simp
    next
      case imputed
      with True show ?thesis using getattr_setattr_same [of p j ?v p1] by simp
    qed
    have nz: "(word_of_int ?v :: 16 word) \<noteq> 0"
      using impute_value_numeric [OF Cons.prems(4,5), of "rng w"]
      by (intro word_of_int_16_nonzero) simp_all
    have a: "getattr_feature p' j = Inr (word_of_int ?v)"
      using impute_loop_keeps_nonzero [OF rest _ nz] st by simp
    have b: "(recv_time, pid, j, 0, ?v) \<in> set (csv_log w')" and c: "b'"
      using impute_loop_monotone [OF rest] st by auto
    from a b c show ?thesis by blast
  next
    case False
    with Cons.prems(3) have jin: "j \<in> set xs" by simp
    from s have z: "getattr_feature p1 j = Inr 0"
    proof (cases rule: impute_feature_step)
      case unchanged
      with Cons.prems(6) show ?thesis by simp
    next
      case imputed
      with False Cons.prems(6) show ?thesis
        using getattr_setattr_other [of p x _ p1 j] by simp
    qed
    from Cons.prems(2) have "\<forall>x\<in>set xs. 0 \<le> x \<and> x \<le> 9" by simp
    from Cons.IH [OF rest this jin Cons.prems(4,5) z] show ?thesis .
  qed
qed

text \<open>The rows appended by the loop, one for each numeric slot that held zero, in order.\<close>

lemma impute_loop_csv:
  assumes "impute_loop recv_time pid sensors (p, b, w) = (r, (p', b', w'))"
    and "\<forall>x\<in>set sensors. 0 \<le> x \<and> x \<le> 9" "distinct sensors"
  shows "csv_log w' = csv_log w @
    map (\<lambda>j. (recv_time, pid, j, 0, slot_value p' j))
      (filter (\<lambda>j. j \<le> 4 \<and> getattr_feature p j = Inr 0) sensors)"
  using assms
proof (induction sensors arbitrary: p b w)
  case Nil
  then show ?case by simp
next
  case (Cons x xs)
  obtain r1 p1 b1 w1 where
    s: "impute_feature recv_time pid x (p, b, w) = (r1, (p1, b1, w1))"
    by (metis prod_cases3)
  note ok = impute_loop_Cons(1) [OF Cons.prems(1) s]
  have x: "0 \<le> x \<and> x \<le> 9" using Cons.prems(2) by simp
  from s have r1: "r1 = None" by (rule impute_feature_step) (use x in simp_all)
  note rest = ok [OF r1]
  from Cons.prems(2,3) have xs: "\<forall>x\<in>set xs. 0 \<le> x \<and> x \<le> 9" "distinct xs" "x \<notin> set xs"
    by simp_all
  note IH = Cons.IH [OF rest xs(1,2)]
  from s show ?case
  proof (cases rule: impute_feature_step)
    case unchanged
    with IH x show ?thesis by simp
  next
    case imputed
    let ?v = "fst (impute_value x (rng w))"
    have same: "filter (\<lambda>j. j \<le> 4 \<and> getattr_feature p1 j = Inr 0) xs
      = filter (\<lambda>j. j \<le> 4 \<and> getattr_feature p j = Inr 0) xs"
    proof (rule filter_cong [OF refl])
      fix j assume "j \<in> set xs"
      with xs(3) have "j \<noteq> x" by auto
      then have "getattr_feature p1 j = getattr_feature p j"
        using getattr_setattr_other [OF imputed(6)] by simp
      then show "(j \<le> 4 \<and> getattr_feature p1 j = Inr 0) = (j \<le> 4 \<and> getattr_feature p j = Inr 0)"
        by simp
    qed
    have rng: "12 \<le> ?v" "?v \<le> 400"
      using impute_value_numeric [OF imputed(2,3), of "rng w"] by simp_all
    have nz: "(word_of_int ?v :: 16 word) \<noteq> 0"
      using rng by (rule word_of_int_16_nonzero)
    have "getattr_feature p1 x = Inr (word_of_int ?v)"
      using getattr_setattr_same [OF imputed(6)] .
    then have "getattr_feature p' x = Inr (word_of_int ?v)"
      using impute_loop_keeps_nonzero [OF rest _ nz] by simp
    then have val: "slot_value p' x = ?v"
      using rng by (simp add: slot_value_def uint_word_of_int_16)
    show ?thesis
      using IH imputed(3,4,7) by (simp add: same val)
  qed
qed

lemma impute_loop_flag:
  assumes "impute_loop recv_time pid sensors (p, b, w) = (r, (p', b', w'))"
    and "\<forall>x\<in>set sensors. 0 \<le> x \<and> x \<le> 9"
  shows "b' = (b \<or> (\<exists>j\<in>set sensors. j \<le> 4 \<and> getattr_feature p j = Inr 0))"
  using assms
proof (induction sensors arbitrary: p b w)
  case Nil
  then show ?case by simp
next
  case (Cons x xs)
  obtain r1 p1 b1 w1 where
    s: "impute_feature recv_time pid x (p, b, w) = (r1, (p1, b1, w1))"
    by (metis prod_cases3)
  note ok = impute_loop_Cons(1) [OF Cons.prems(1) s]
  have x: "0 \<le> x \<and> x \<le> 9" using Cons.prems(2) by simp
  from s have r1: "r1 = None" by (rule impute_feature_step) (use x in simp_all)
  note rest = ok [OF r1]
  from Cons.prems(2) have xs: "\<forall>x\<in>set xs. 0 \<le> x \<and> x \<le> 9" by simp
  note IH = Cons.IH [OF rest xs]
  from s show ?case
  proof (cases rule: impute_feature_step)
    case unchanged
    with IH x show ?thesis by auto
  next
    case imputed
    with impute_loop_monotone [OF rest] have "b'" by simp
    with imputed show ?thesis by auto
  qed
qed

subsection \<open>The whole of \<open>parse_packet\<close>\<close>

lemma range_10: "\<forall>x\<in>set [0..9]. 0 \<le> x \<and> x \<le> (9::int)" "distinct [0..(9::int)]"
  by simp_all

lemma slot_value_zero:
  assumes "0 \<le> j" "j \<le> 9"
  shows "slot_value p j = 0 \<longleftrightarrow> getattr_feature p j = Inr 0"
proof -
  obtain v where v: "getattr_feature p j = Inr v"
    using getattr_feature_total [OF assms] by blast
  have "uint v = 0 \<longleftrightarrow> v = 0" by (simp add: uint_0_iff)
  with v show ?thesis by (simp add: slot_value_def)
qed

lemma parse_packet_Planter:
  assumes "Ether_dissect bytes = Inr pkt" "planter_of pkt = Some p"
  obtains p' b' w1 where
    "impute_loop now (Planter.patient_id p) [0..9] (p, False, w) = (None, (p', b', w1))"
    "packet_out_calls (parse_packet now bytes w) = packet_out_calls w @ [raw (with_planter pkt p')]"
    "packet_out_done (parse_packet now bytes w) =
       (if rpc_fails w (length (packet_out_calls w)) then packet_out_done w
        else packet_out_done w @ [raw (with_planter pkt p')])"
    "csv_log (parse_packet now bytes w) = csv_log w1"
    "rng (parse_packet now bytes w) = rng w1"
    "rpc_fails (parse_packet now bytes w) = rpc_fails w"
    "sleeps (parse_packet now bytes w) = sleeps w"
    "stdout (parse_packet now bytes w) = stdout w1 @
       [if b' then Modified_Planter now (Planter.patient_id p) p'
        else Complete_Planter now (Planter.patient_id p) p',
        Sending_PacketOut now CPU_PORT] @
       (if rpc_fails w (length (packet_out_calls w)) then [Error_parsing_packet RpcError] else [])"
proof -
  obtain r p' b' w1 where
    l: "impute_loop now (Planter.patient_id p) [0..9] (p, False, w) = (r, (p', b', w1))"
    by (metis prod_cases3)
  have r: "r = None" using impute_loop_no_exn [OF range_10(1) l] .
  note fr = impute_loop_world_frame [OF l]
  have t: "parse_packet_try now bytes w =
      PacketOut (raw (with_planter pkt p'))
        (py_print (Sending_PacketOut now CPU_PORT)
          (py_print (if b' then Modified_Planter now (Planter.patient_id p) p'
                     else Complete_Planter now (Planter.patient_id p) p') w1))"
    using assms l r by (simp add: parse_packet_try_def Let_def)
  show ?thesis
  proof (rule that [of p' b' w1])
    show "impute_loop now (Planter.patient_id p) [0..9] (p, False, w) = (None, (p', b', w1))"
      using l r by simp
  qed (use fr in \<open>simp_all add: parse_packet_def t PacketOut_def py_print_def Let_def\<close>)
qed

text \<open>A frame that is dropped: the only effect is one line on standard output.\<close>

lemma parse_packet_dropped:
  assumes "Ether_dissect bytes = Inl e \<or> (\<exists>pkt. Ether_dissect bytes = Inr pkt \<and> planter_of pkt = None)"
  shows "parse_packet now bytes w =
    w\<lparr>stdout := stdout w @
        [case Ether_dissect bytes of Inl e \<Rightarrow> Error_parsing_packet e | Inr pkt \<Rightarrow> No_Planter_header]\<rparr>"
  using assms
  by (auto simp: parse_packet_def parse_packet_try_def py_print_def)

text \<open>The frame handed back to the switch dissects to the updated Planter header.\<close>

lemma with_planter_dissects:
  assumes "Ether_dissect bytes = Inr pkt" "planter_of pkt = Some p"
  shows "Ether_dissect (raw (with_planter pkt p')) = Inr (with_planter pkt p')
    \<and> planter_of (with_planter pkt p') = Some p'"
proof -
  obtain hdr pad where pkt: "pkt = (hdr, Planter_layer p pad)"
    using assms(2) by (cases pkt; cases "snd pkt") (auto simp: planter_of_def)
  have h: "length (dst hdr) = 6" "length (src hdr) = 6" "Ether.type hdr = ETHERTYPE_PLANTER"
    using Ether_dissect_Planter_hdr [of bytes hdr p pad] assms(1) pkt by simp_all
  show ?thesis
    using Ether_dissect_raw_Planter [OF h, of p' pad]
    by (simp add: pkt with_planter_def planter_of_def)
qed

subsection \<open>Which slots the controller changes\<close>

text \<open>Evaluating the example frames.\<close>

lemma frame_of_dissect:
  "Ether_dissect (frame_of p) = Inr (hdr0, Planter_layer p [])"
  "planter_of (hdr0, Planter_layer p []) = Some p"
  "with_planter (hdr0, Planter_layer p []) p' = (hdr0, Planter_layer p' [])"
  unfolding frame_of_def
  by (simp_all add: Ether_dissect_raw_Planter hdr0_def planter_of_def with_planter_def)

lemmas run_defs = impute_feature_def getattr_feature_def setattr_feature_def
  impute_value_def randint_def log_imputation_def py_print_def PacketOut_def Let_def

lemma run_six:
  "parse_packet now (frame_of planter_six) world0 =
     world0\<lparr>packet_out_calls := [frame_of planter_six], packet_out_done := [frame_of planter_six],
       stdout := [Complete_Planter now 1000 planter_six, Sending_PacketOut now CPU_PORT]\<rparr>"
  by (simp add: parse_packet_def parse_packet_try_def frame_of_dissect upto_rec1 run_defs
      planter_six_def world0_def frame_of_def [symmetric])

lemma run_alert:
  "parse_packet now (frame_of planter_alert) world0 =
     world0\<lparr>packet_out_calls := [frame_of planter_alert], packet_out_done := [frame_of planter_alert],
       stdout := [Complete_Planter now 3 planter_alert, Sending_PacketOut now CPU_PORT]\<rparr>"
  by (simp add: parse_packet_def parse_packet_try_def frame_of_dissect upto_rec1 run_defs
      planter_alert_def world0_def frame_of_def [symmetric])

lemma run_gaps:
  "csv_log (parse_packet now (frame_of planter_gaps) world0) =
     [(now, 17, 0, 0, 375), (now, 17, 2, 0, 86)]"
  "packet_out_calls (parse_packet now (frame_of planter_gaps) world0) =
     [frame_of (planter_gaps\<lparr>feature0 := 375, feature2 := 86\<rparr>)]"
  by (simp_all add: parse_packet_def parse_packet_try_def frame_of_dissect upto_rec1 run_defs
      planter_gaps_def world0_def frame_of_def [symmetric])


text \<open>
  What \<open>parse_packet\<close> does to a frame that carries a Planter header \<open>p\<close>: one call of
  \<open>PacketOut\<close>, with the header \<open>p'\<close> in which the numeric slots that read zero hold a
  drawn value and every other slot holds what it held, and one row for each of the former.
\<close>

lemma parse_packet_effect:
  assumes "Ether_dissect bytes = Inr pkt" "planter_of pkt = Some p"
  obtains p' where
    "new_calls w (parse_packet now bytes w) = [raw (with_planter pkt p')]"
    "\<And>j. 0 \<le> j \<Longrightarrow> j \<le> 4 \<Longrightarrow> slot_value p j = 0 \<Longrightarrow>
        (\<exists>g. slot_value p' j = fst (impute_value j g)) \<and> 12 \<le> slot_value p' j"
    "\<And>j. 5 \<le> j \<Longrightarrow> slot_value p' j = slot_value p j"
    "\<And>j. slot_value p j \<noteq> 0 \<Longrightarrow> slot_value p' j = slot_value p j"
    "new_rows w (parse_packet now bytes w) =
       map (\<lambda>j. (now, Planter.patient_id p, j, 0, slot_value p' j))
         (filter (\<lambda>j. j \<le> 4 \<and> slot_value p j = 0) [0..9])"
proof -
  obtain p' b' w1 where
    l: "impute_loop now (Planter.patient_id p) [0..9] (p, False, w) = (None, (p', b', w1))"
    and calls: "packet_out_calls (parse_packet now bytes w) =
      packet_out_calls w @ [raw (with_planter pkt p')]"
    and csv: "csv_log (parse_packet now bytes w) = csv_log w1"
    using parse_packet_Planter [OF assms, of now w] by metis
  have c1: "new_calls w (parse_packet now bytes w) = [raw (with_planter pkt p')]"
    by (simp add: new_calls_def calls)
  have c2: "(\<exists>g. slot_value p' j = fst (impute_value j g)) \<and> 12 \<le> slot_value p' j"
    if j: "0 \<le> j" "j \<le> 4" "slot_value p j = 0" for j
  proof -
    have z: "getattr_feature p j = Inr 0"
      using slot_value_zero [of j p] j by simp
    have jin: "j \<in> set [0..9]" using j by simp
    obtain g where g: "getattr_feature p' j = Inr (word_of_int (fst (impute_value j g)))"
      using impute_loop_fills_zero [OF l range_10(1) jin j(1,2) z] by blast
    have r: "12 \<le> fst (impute_value j g)" "fst (impute_value j g) \<le> 400"
      using impute_value_numeric [OF j(1,2), of g] by simp_all
    then have "slot_value p' j = fst (impute_value j g)"
      using g by (simp add: slot_value_def uint_word_of_int_16)
    with r show ?thesis by auto
  qed
  have c3: "slot_value p' j = slot_value p j" if "5 \<le> j" for j
    using impute_loop_untouched [OF l, of j] that by (simp add: slot_value_def)
  have c4: "slot_value p' j = slot_value p j" if nz: "slot_value p j \<noteq> 0" for j
  proof (cases "getattr_feature p j")
    case (Inl e)
    with nz show ?thesis by (simp add: slot_value_def)
  next
    case (Inr v)
    with nz have "v \<noteq> 0" by (auto simp: slot_value_def)
    from impute_loop_keeps_nonzero [OF l Inr this] Inr show ?thesis
      by (simp add: slot_value_def)
  qed
  have f: "filter (\<lambda>j. j \<le> 4 \<and> getattr_feature p j = Inr 0) [0..9]
      = filter (\<lambda>j. j \<le> 4 \<and> slot_value p j = 0) [0..9]"
    by (rule filter_cong [OF refl]) (simp add: slot_value_zero)
  have c5: "new_rows w (parse_packet now bytes w) =
       map (\<lambda>j. (now, Planter.patient_id p, j, 0, slot_value p' j))
         (filter (\<lambda>j. j \<le> 4 \<and> slot_value p j = 0) [0..9])"
    using impute_loop_csv [OF l range_10] by (simp add: new_rows_def csv f)
  from c1 c2 c3 c4 c5 show ?thesis by (rule that)
qed

subsection \<open>Imputation at finalization\<close>

lemma world0_empty: "packet_out_calls world0 = []" "csv_log world0 = []"
  "packet_out_done world0 = []" "stdout world0 = []" "sleeps world0 = []"
  by (simp_all add: world0_def)

text \<open>
  C1 (as the code has it). The claim says that every slot unobserved at finalization is
  imputed, slots 6 to 9 of a six-sensor patient included. The loop skips slots 5 to 9
  (\<open>if sensor_id in [5, 6, 7, 8, 9]: continue\<close>), so it holds for the numeric slots only:
  for every frame that carries a Planter header, the frame handed to \<open>PacketOut\<close> holds, in
  each of the slots 0 to 4 that read zero, a value drawn by \<open>impute_value\<close> for that slot,
  and a row of the log records it; the slots 5 to 9 are handed on as they came.
\<close>

theorem numeric_zero_slots_imputed:
  assumes "Ether_dissect bytes = Inr pkt" and "planter_of pkt = Some p"
  shows "\<exists>p'. new_calls w (parse_packet now bytes w) = [raw (with_planter pkt p')]
    \<and> (\<forall>j\<in>{0..4}. slot_value p j = 0 \<longrightarrow>
          (\<exists>g. slot_value p' j = fst (impute_value j g))
          \<and> (now, Planter.patient_id p, j, 0, slot_value p' j)
               \<in> set (new_rows w (parse_packet now bytes w)))
    \<and> (\<forall>j\<in>{5..9}. slot_value p' j = slot_value p j)"
  using assms
proof (rule parse_packet_effect [where w = w and now = now])
  fix p'
  assume c: "new_calls w (parse_packet now bytes w) = [raw (with_planter pkt p')]"
    and z: "\<And>j. 0 \<le> j \<Longrightarrow> j \<le> 4 \<Longrightarrow> slot_value p j = 0 \<Longrightarrow>
        (\<exists>g. slot_value p' j = fst (impute_value j g)) \<and> 12 \<le> slot_value p' j"
    and s: "\<And>j. 5 \<le> j \<Longrightarrow> slot_value p' j = slot_value p j"
    and r: "new_rows w (parse_packet now bytes w) =
       map (\<lambda>j. (now, Planter.patient_id p, j, 0, slot_value p' j))
         (filter (\<lambda>j. j \<le> 4 \<and> slot_value p j = 0) [0..9])"
  have a: "(\<exists>g. slot_value p' j = fst (impute_value j g))
      \<and> (now, Planter.patient_id p, j, 0, slot_value p' j)
           \<in> set (new_rows w (parse_packet now bytes w))"
    if "j \<in> {0..4}" "slot_value p j = 0" for j :: int
  proof -
    from that have j: "0 \<le> j" "j \<le> 4" by simp_all
    have "j \<in> set (filter (\<lambda>j. j \<le> 4 \<and> slot_value p j = 0) [0..9])"
      using j that(2) by simp
    then have "(now, Planter.patient_id p, j, 0, slot_value p' j)
        \<in> set (new_rows w (parse_packet now bytes w))"
      unfolding r set_map by (rule imageI)
    with z [OF j that(2)] show ?thesis by simp
  qed
  have b: "\<forall>j\<in>{5..9}. slot_value p' j = slot_value p j"
    using s by simp
  show ?thesis
  proof (intro exI [of _ p'] conjI ballI impI)
    show "new_calls w (parse_packet now bytes w) = [raw (with_planter pkt p')]" by (rule c)
  next
    fix j :: int assume "j \<in> {0..4}" "slot_value p j = 0"
    from a [OF this] show "\<exists>g. slot_value p' j = fst (impute_value j g)" by simp
  next
    fix j :: int assume "j \<in> {0..4}" "slot_value p j = 0"
    from a [OF this] show "(now, Planter.patient_id p, j, 0, slot_value p' j)
           \<in> set (new_rows w (parse_packet now bytes w))" by simp
  next
    fix j :: int assume "j \<in> {5..9}"
    with b show "slot_value p' j = slot_value p j" by simp
  qed
qed

theorem numeric_zero_slots_imputed_witness:
  "Ether_dissect (frame_of planter_gaps) = Inr (hdr0, Planter_layer planter_gaps [])
   \<and> planter_of (hdr0, Planter_layer planter_gaps []) = Some planter_gaps
   \<and> slot_value planter_gaps 0 = 0 \<and> slot_value planter_gaps 2 = 0
   \<and> new_calls world0 (parse_packet ''12:00:00'' (frame_of planter_gaps) world0)
       = [frame_of (planter_gaps\<lparr>feature0 := 375, feature2 := 86\<rparr>)]
   \<and> new_rows world0 (parse_packet ''12:00:00'' (frame_of planter_gaps) world0)
       = [(''12:00:00'', 17, 0, 0, 375), (''12:00:00'', 17, 2, 0, 86)]
   \<and> (\<exists>p'. new_calls world0 (parse_packet ''12:00:00'' (frame_of planter_gaps) world0)
            = [raw (with_planter (hdr0, Planter_layer planter_gaps []) p')]
        \<and> (\<exists>g. slot_value p' 0 = fst (impute_value 0 g))
        \<and> slot_value p' 7 = slot_value planter_gaps 7)"
proof -
  have d: "Ether_dissect (frame_of planter_gaps) = Inr (hdr0, Planter_layer planter_gaps [])"
    and po: "planter_of (hdr0, Planter_layer planter_gaps []) = Some planter_gaps"
    by (simp_all add: frame_of_dissect)
  have z: "slot_value planter_gaps 0 = 0" "slot_value planter_gaps 2 = 0"
    by (simp_all add: slot_value_def getattr_feature_def planter_gaps_def)
  from numeric_zero_slots_imputed [OF d po, of world0 "''12:00:00''"]
  obtain p' where
    c: "new_calls world0 (parse_packet ''12:00:00'' (frame_of planter_gaps) world0)
            = [raw (with_planter (hdr0, Planter_layer planter_gaps []) p')]"
    and i: "\<forall>j\<in>{0..4}. slot_value planter_gaps j = 0 \<longrightarrow>
          (\<exists>g. slot_value p' j = fst (impute_value j g))
          \<and> (''12:00:00'', Planter.patient_id planter_gaps, j, 0, slot_value p' j)
               \<in> set (new_rows world0 (parse_packet ''12:00:00'' (frame_of planter_gaps) world0))"
    and k: "\<forall>j\<in>{5..9}. slot_value p' j = slot_value planter_gaps j"
    by blast
  from i z(1) have i0: "\<exists>g. slot_value p' 0 = fst (impute_value 0 g)" by simp
  from k have k7: "slot_value p' 7 = slot_value planter_gaps 7" by simp
  from c i0 k7 have e: "\<exists>p'. new_calls world0 (parse_packet ''12:00:00'' (frame_of planter_gaps) world0)
            = [raw (with_planter (hdr0, Planter_layer planter_gaps []) p')]
        \<and> (\<exists>g. slot_value p' 0 = fst (impute_value 0 g))
        \<and> slot_value p' 7 = slot_value planter_gaps 7"
    by blast
  have n: "new_calls world0 (parse_packet ''12:00:00'' (frame_of planter_gaps) world0)
       = [frame_of (planter_gaps\<lparr>feature0 := 375, feature2 := 86\<rparr>)]"
    "new_rows world0 (parse_packet ''12:00:00'' (frame_of planter_gaps) world0)
       = [(''12:00:00'', 17, 0, 0, 375), (''12:00:00'', 17, 2, 0, 86)]"
    by (simp_all add: new_calls_def new_rows_def run_gaps world0_empty)
  from d po z n e show ?thesis by (intro conjI)
qed

text \<open>
  The six-sensor patient of the claim: the frame goes back to the switch as it came, with
  zeros in slots 6 to 9, and nothing is logged.
\<close>

theorem six_sensor_patient_counterexample:
  "slot_value planter_six 6 = 0 \<and> slot_value planter_six 7 = 0
   \<and> slot_value planter_six 8 = 0 \<and> slot_value planter_six 9 = 0
   \<and> new_calls world0 (parse_packet ''12:00:00'' (frame_of planter_six) world0)
       = [frame_of planter_six]
   \<and> new_rows world0 (parse_packet ''12:00:00'' (frame_of planter_six) world0) = []"
proof -
  have "slot_value planter_six 6 = 0" "slot_value planter_six 7 = 0"
    "slot_value planter_six 8 = 0" "slot_value planter_six 9 = 0"
    by (simp_all add: slot_value_def getattr_feature_def planter_six_def)
  moreover have "new_calls world0 (parse_packet ''12:00:00'' (frame_of planter_six) world0)
       = [frame_of planter_six]"
    "new_rows world0 (parse_packet ''12:00:00'' (frame_of planter_six) world0) = []"
    by (simp_all add: run_six new_calls_def new_rows_def world0_empty)
  ultimately show ?thesis by (intro conjI)
qed

subsection \<open>Which slots count as missing, and what is logged for them\<close>

lemma length_filter_distinct:
  assumes "distinct xs"
  shows "length (filter (\<lambda>i. i = j \<and> c i) xs) = (if j \<in> set xs \<and> c j then 1 else 0)"
  using assms by (induction xs) auto

lemma parse_packet_changed:
  assumes "Ether_dissect bytes = Inr pkt" "planter_of pkt = Some p"
  obtains p' where
    "new_calls w (parse_packet now bytes w) = [raw (with_planter pkt p')]"
    "\<And>j::int. 0 \<le> j \<Longrightarrow> j \<le> 9 \<Longrightarrow>
        (slot_value p' j \<noteq> slot_value p j) = (j \<le> 4 \<and> slot_value p j = 0)"
    "new_rows w (parse_packet now bytes w) =
       map (\<lambda>j. (now, Planter.patient_id p, j, 0, slot_value p' j))
         (filter (\<lambda>j. slot_value p' j \<noteq> slot_value p j) [0..9])"
  using assms
proof (rule parse_packet_effect [where w = w and now = now])
  fix p'
  assume c: "new_calls w (parse_packet now bytes w) = [raw (with_planter pkt p')]"
    and z: "\<And>j. 0 \<le> j \<Longrightarrow> j \<le> 4 \<Longrightarrow> slot_value p j = 0 \<Longrightarrow>
        (\<exists>g. slot_value p' j = fst (impute_value j g)) \<and> 12 \<le> slot_value p' j"
    and s: "\<And>j. 5 \<le> j \<Longrightarrow> slot_value p' j = slot_value p j"
    and k: "\<And>j. slot_value p j \<noteq> 0 \<Longrightarrow> slot_value p' j = slot_value p j"
    and r: "new_rows w (parse_packet now bytes w) =
       map (\<lambda>j. (now, Planter.patient_id p, j, 0, slot_value p' j))
         (filter (\<lambda>j. j \<le> 4 \<and> slot_value p j = 0) [0..9])"
  have iff: "(slot_value p' j \<noteq> slot_value p j) = (j \<le> 4 \<and> slot_value p j = 0)"
    if j: "0 \<le> j" "j \<le> 9" for j :: int
  proof (cases "j \<le> 4 \<and> slot_value p j = 0")
    case True
    with z [of j] j have "12 \<le> slot_value p' j" by simp
    with True show ?thesis by simp
  next
    case False
    then have "5 \<le> j \<or> slot_value p j \<noteq> 0" by auto
    with s [of j] k [of j] have "slot_value p' j = slot_value p j" by blast
    with False show ?thesis by simp
  qed
  have f: "filter (\<lambda>j. j \<le> 4 \<and> slot_value p j = 0) [0..9]
      = filter (\<lambda>j. slot_value p' j \<noteq> slot_value p j) [0..9]"
    by (rule filter_cong [OF refl]) (simp add: iff)
  show ?thesis
    using c iff r unfolding f by (rule that)
qed

text \<open>
  C10 (as the code has it). The claim says a slot is imputed exactly when its value is 0.
  The loop never reaches slots 5 to 9, so the class of missing slots is narrower: among the
  ten slots of any frame with a Planter header, the controller replaces the value of slot
  \<open>j\<close> if and only if \<open>j \<le> 4\<close> and the slot reads 0; a zero in slots 0 to 4 is replaced
  whether or not a sensor reported it, and a zero in slots 5 to 9 is kept.
\<close>

theorem slot_replaced_iff_numeric_zero:
  assumes "Ether_dissect bytes = Inr pkt" and "planter_of pkt = Some p"
  shows "\<exists>p'. new_calls w (parse_packet now bytes w) = [raw (with_planter pkt p')]
    \<and> (\<forall>j\<in>{0..9}. (slot_value p' j \<noteq> slot_value p j) = (j \<le> 4 \<and> slot_value p j = 0))
    \<and> map row_sensor (new_rows w (parse_packet now bytes w))
        = filter (\<lambda>j. j \<le> 4 \<and> slot_value p j = 0) [0..9]"
  using assms
proof (rule parse_packet_changed [where w = w and now = now])
  fix p'
  assume c: "new_calls w (parse_packet now bytes w) = [raw (with_planter pkt p')]"
    and iff: "\<And>j::int. 0 \<le> j \<Longrightarrow> j \<le> 9 \<Longrightarrow>
        (slot_value p' j \<noteq> slot_value p j) = (j \<le> 4 \<and> slot_value p j = 0)"
    and r: "new_rows w (parse_packet now bytes w) =
       map (\<lambda>j. (now, Planter.patient_id p, j, 0, slot_value p' j))
         (filter (\<lambda>j. slot_value p' j \<noteq> slot_value p j) [0..9])"
  have f: "filter (\<lambda>j. slot_value p' j \<noteq> slot_value p j) [0..9]
      = filter (\<lambda>j. j \<le> 4 \<and> slot_value p j = 0) [0..9]"
    by (rule filter_cong [OF refl]) (simp add: iff)
  have m: "map row_sensor (new_rows w (parse_packet now bytes w))
        = filter (\<lambda>j. j \<le> 4 \<and> slot_value p j = 0) [0..9]"
    unfolding r f by (simp add: row_sensor_def comp_def)
  have b: "\<forall>j\<in>{0..9}. (slot_value p' j \<noteq> slot_value p j) = (j \<le> 4 \<and> slot_value p j = 0)"
    using iff by simp
  from c b m show ?thesis by blast
qed

theorem slot_replaced_iff_numeric_zero_witness:
  "Ether_dissect (frame_of planter_gaps) = Inr (hdr0, Planter_layer planter_gaps [])
   \<and> planter_of (hdr0, Planter_layer planter_gaps []) = Some planter_gaps
   \<and> slot_value planter_gaps 2 = 0 \<and> slot_value planter_gaps 5 = 0
   \<and> slot_value planter_gaps 1 = 97
   \<and> (\<exists>p'. new_calls world0 (parse_packet ''12:00:00'' (frame_of planter_gaps) world0)
            = [raw (with_planter (hdr0, Planter_layer planter_gaps []) p')]
        \<and> slot_value p' 2 \<noteq> 0 \<and> slot_value p' 5 = 0 \<and> slot_value p' 1 = 97)
   \<and> map row_sensor (new_rows world0 (parse_packet ''12:00:00'' (frame_of planter_gaps) world0))
       = [0, 2]"
proof -
  have d: "Ether_dissect (frame_of planter_gaps) = Inr (hdr0, Planter_layer planter_gaps [])"
    and po: "planter_of (hdr0, Planter_layer planter_gaps []) = Some planter_gaps"
    by (simp_all add: frame_of_dissect)
  have z: "slot_value planter_gaps 2 = 0" "slot_value planter_gaps 5 = 0"
    "slot_value planter_gaps 1 = 97"
    by (simp_all add: slot_value_def getattr_feature_def planter_gaps_def)
  from slot_replaced_iff_numeric_zero [OF d po, of world0 "''12:00:00''"]
  obtain p' where
    c: "new_calls world0 (parse_packet ''12:00:00'' (frame_of planter_gaps) world0)
            = [raw (with_planter (hdr0, Planter_layer planter_gaps []) p')]"
    and i: "\<forall>j\<in>{0..9}. (slot_value p' j \<noteq> slot_value planter_gaps j)
          = (j \<le> 4 \<and> slot_value planter_gaps j = 0)"
    and m: "map row_sensor (new_rows world0 (parse_packet ''12:00:00'' (frame_of planter_gaps) world0))
        = filter (\<lambda>j. j \<le> 4 \<and> slot_value planter_gaps j = 0) [0..9]"
    by blast
  from i have "(slot_value p' 2 \<noteq> slot_value planter_gaps 2) = (slot_value planter_gaps 2 = 0)"
    "(slot_value p' 5 \<noteq> slot_value planter_gaps 5) = False"
    "(slot_value p' 1 \<noteq> slot_value planter_gaps 1) = (slot_value planter_gaps 1 = 0)"
    by simp_all
  with z have v: "slot_value p' 2 \<noteq> 0" "slot_value p' 5 = 0" "slot_value p' 1 = 97"
    by simp_all
  from c v have e: "\<exists>p'. new_calls world0 (parse_packet ''12:00:00'' (frame_of planter_gaps) world0)
            = [raw (with_planter (hdr0, Planter_layer planter_gaps []) p')]
        \<and> slot_value p' 2 \<noteq> 0 \<and> slot_value p' 5 = 0 \<and> slot_value p' 1 = 97"
    by blast
  have "filter (\<lambda>j. j \<le> 4 \<and> slot_value planter_gaps j = 0) [0..9] = [0, 2]"
    by (simp add: upto_rec1 slot_value_def getattr_feature_def planter_gaps_def)
  with m have n: "map row_sensor (new_rows world0 (parse_packet ''12:00:00'' (frame_of planter_gaps) world0))
       = [0, 2]" by simp
  from d po z e n show ?thesis by (intro conjI)
qed

text \<open>
  An observed AVPU of 0 (alert) in slot 5 and an observed sex of 0 in slot 9: both slots
  carry 0, neither is imputed, nothing is logged.
\<close>

theorem zero_in_slot_five_counterexample:
  "slot_value planter_alert 5 = 0 \<and> slot_value planter_alert 9 = 0
   \<and> new_calls world0 (parse_packet ''12:00:00'' (frame_of planter_alert) world0)
       = [frame_of planter_alert]
   \<and> new_rows world0 (parse_packet ''12:00:00'' (frame_of planter_alert) world0) = []"
proof -
  have "slot_value planter_alert 5 = 0" "slot_value planter_alert 9 = 0"
    by (simp_all add: slot_value_def getattr_feature_def planter_alert_def)
  moreover have "new_calls world0 (parse_packet ''12:00:00'' (frame_of planter_alert) world0)
       = [frame_of planter_alert]"
    "new_rows world0 (parse_packet ''12:00:00'' (frame_of planter_alert) world0) = []"
    by (simp_all add: run_alert new_calls_def new_rows_def world0_empty)
  ultimately show ?thesis by (intro conjI)
qed

subsection \<open>The audit log\<close>

text \<open>
  C6. For every frame with a Planter header, the rows appended to the log are, in slot
  order, one row (reception time, patient id, sensor id, 0, new value) for each slot whose
  value the controller replaced: each replaced slot has exactly one row, every other sensor
  id has none, the old value of every row is 0, and a frame in which no slot is replaced
  appends no row.
\<close>

theorem one_row_per_imputed_slot:
  assumes "Ether_dissect bytes = Inr pkt" and "planter_of pkt = Some p"
  shows "\<exists>p'. new_calls w (parse_packet now bytes w) = [raw (with_planter pkt p')]
    \<and> new_rows w (parse_packet now bytes w) =
         map (\<lambda>j. (now, Planter.patient_id p, j, 0, slot_value p' j))
           (filter (\<lambda>j. slot_value p' j \<noteq> slot_value p j) [0..9])
    \<and> (\<forall>j. length (filter (\<lambda>row. row_sensor row = j) (new_rows w (parse_packet now bytes w)))
          = (if j \<in> {0..9} \<and> slot_value p' j \<noteq> slot_value p j then 1 else 0))
    \<and> (\<forall>row\<in>set (new_rows w (parse_packet now bytes w)). row_old_value row = 0)
    \<and> ((\<forall>j\<in>{0..9}. slot_value p' j = slot_value p j)
          \<longrightarrow> new_rows w (parse_packet now bytes w) = [])"
  using assms
proof (rule parse_packet_changed [where w = w and now = now])
  fix p'
  assume c: "new_calls w (parse_packet now bytes w) = [raw (with_planter pkt p')]"
    and r: "new_rows w (parse_packet now bytes w) =
       map (\<lambda>j. (now, Planter.patient_id p, j, 0, slot_value p' j))
         (filter (\<lambda>j. slot_value p' j \<noteq> slot_value p j) [0..9])"
  let ?ch = "\<lambda>j. slot_value p' j \<noteq> slot_value p j"
  have cnt: "length (filter (\<lambda>row. row_sensor row = j) (new_rows w (parse_packet now bytes w)))
          = (if j \<in> {0..9} \<and> ?ch j then 1 else 0)" for j
  proof -
    have "length (filter (\<lambda>row. row_sensor row = j) (new_rows w (parse_packet now bytes w)))
        = length (filter (\<lambda>i. i = j) (filter ?ch [0..9]))"
      unfolding r by (simp add: filter_map comp_def row_sensor_def)
    also have "\<dots> = length (filter (\<lambda>i. i = j \<and> ?ch i) [0..9])"
      by (simp add: conj_commute)
    also have "\<dots> = (if j \<in> set [0..9] \<and> ?ch j then 1 else 0)"
      by (rule length_filter_distinct) simp
    finally show ?thesis by simp
  qed
  have old: "\<forall>row\<in>set (new_rows w (parse_packet now bytes w)). row_old_value row = 0"
    unfolding r by (auto simp: row_old_value_def)
  have none: "(\<forall>j\<in>{0..9}. slot_value p' j = slot_value p j)
          \<longrightarrow> new_rows w (parse_packet now bytes w) = []"
    unfolding r by (auto simp: filter_empty_conv)
  from c r cnt old none show ?thesis by blast
qed

theorem one_row_per_imputed_slot_witness:
  "Ether_dissect (frame_of planter_gaps) = Inr (hdr0, Planter_layer planter_gaps [])
   \<and> planter_of (hdr0, Planter_layer planter_gaps []) = Some planter_gaps
   \<and> new_rows world0 (parse_packet ''12:00:00'' (frame_of planter_gaps) world0)
       = [(''12:00:00'', 17, 0, 0, 375), (''12:00:00'', 17, 2, 0, 86)]
   \<and> (\<exists>p'. new_calls world0 (parse_packet ''12:00:00'' (frame_of planter_gaps) world0)
            = [raw (with_planter (hdr0, Planter_layer planter_gaps []) p')]
        \<and> length (filter (\<lambda>row. row_sensor row = 2)
             (new_rows world0 (parse_packet ''12:00:00'' (frame_of planter_gaps) world0)))
           = (if (2::int) \<in> {0..9} \<and> slot_value p' 2 \<noteq> slot_value planter_gaps 2 then 1 else 0))"
proof -
  have d: "Ether_dissect (frame_of planter_gaps) = Inr (hdr0, Planter_layer planter_gaps [])"
    and po: "planter_of (hdr0, Planter_layer planter_gaps []) = Some planter_gaps"
    by (simp_all add: frame_of_dissect)
  from one_row_per_imputed_slot [OF d po, of world0 "''12:00:00''"]
  obtain p' where
    c: "new_calls world0 (parse_packet ''12:00:00'' (frame_of planter_gaps) world0)
            = [raw (with_planter (hdr0, Planter_layer planter_gaps []) p')]"
    and n: "\<forall>j. length (filter (\<lambda>row. row_sensor row = j)
             (new_rows world0 (parse_packet ''12:00:00'' (frame_of planter_gaps) world0)))
          = (if j \<in> {0..9} \<and> slot_value p' j \<noteq> slot_value planter_gaps j then 1 else 0)"
    by blast
  from n have n2: "length (filter (\<lambda>row. row_sensor row = 2)
             (new_rows world0 (parse_packet ''12:00:00'' (frame_of planter_gaps) world0)))
           = (if (2::int) \<in> {0..9} \<and> slot_value p' 2 \<noteq> slot_value planter_gaps 2 then 1 else 0)"
    by (rule spec)
  from c n2 have e: "\<exists>p'. new_calls world0 (parse_packet ''12:00:00'' (frame_of planter_gaps) world0)
            = [raw (with_planter (hdr0, Planter_layer planter_gaps []) p')]
        \<and> length (filter (\<lambda>row. row_sensor row = 2)
             (new_rows world0 (parse_packet ''12:00:00'' (frame_of planter_gaps) world0)))
           = (if (2::int) \<in> {0..9} \<and> slot_value p' 2 \<noteq> slot_value planter_gaps 2 then 1 else 0)"
    by blast
  have r: "new_rows world0 (parse_packet ''12:00:00'' (frame_of planter_gaps) world0)
       = [(''12:00:00'', 17, 0, 0, 375), (''12:00:00'', 17, 2, 0, 86)]"
    by (simp add: new_rows_def run_gaps world0_empty)
  from d po r e show ?thesis by (intro conjI)
qed

subsection \<open>Standard output is write-only\<close>

text \<open>
  Nothing the controller does depends on what it has printed: every operation commutes
  with putting lines in front of standard output.
\<close>

lemma printed_before_fields:
  "rng (printed_before ls w) = rng w"
  "rpc_fails (printed_before ls w) = rpc_fails w"
  "packet_out_calls (printed_before ls w) = packet_out_calls w"
  "packet_out_done (printed_before ls w) = packet_out_done w"
  "csv_log (printed_before ls w) = csv_log w"
  "sleeps (printed_before ls w) = sleeps w"
  "stdout (printed_before ls w) = ls @ stdout w"
  by (simp_all add: printed_before_def)

lemma py_print_printed_before:
  "py_print m (printed_before ls w) = printed_before ls (py_print m w)"
  by (simp add: py_print_def printed_before_def)

lemma PacketOut_printed_before:
  "PacketOut bytes (printed_before ls w) =
     (fst (PacketOut bytes w), printed_before ls (snd (PacketOut bytes w)))"
  by (simp add: PacketOut_def printed_before_def Let_def)

lemma impute_feature_printed_before:
  "impute_feature recv_time pid x (p, b, printed_before ls w) =
     (case impute_feature recv_time pid x (p, b, w) of
        (r, (p', b', w')) \<Rightarrow> (r, (p', b', printed_before ls w')))"
  by (simp add: impute_feature_def printed_before_def log_imputation_def py_print_def Let_def
      split: sum.splits prod.splits)

lemma impute_loop_printed_before:
  "impute_loop recv_time pid sensors (p, b, printed_before ls w) =
     (case impute_loop recv_time pid sensors (p, b, w) of
        (r, (p', b', w')) \<Rightarrow> (r, (p', b', printed_before ls w')))"
proof (induction sensors arbitrary: p b w)
  case Nil
  then show ?case by simp
next
  case (Cons x xs)
  obtain r1 p1 b1 w1 where
    s: "impute_feature recv_time pid x (p, b, w) = (r1, (p1, b1, w1))"
    by (metis prod_cases3)
  show ?case
  proof (cases r1)
    case None
    with s Cons.IH [of p1 b1 w1] show ?thesis
      by (simp add: impute_feature_printed_before)
  next
    case (Some e)
    with s show ?thesis by (simp add: impute_feature_printed_before)
  qed
qed

lemma parse_packet_try_printed_before:
  "parse_packet_try now bytes (printed_before ls w) =
     (fst (parse_packet_try now bytes w), printed_before ls (snd (parse_packet_try now bytes w)))"
proof (cases "Ether_dissect bytes")
  case (Inl e)
  then show ?thesis by (simp add: parse_packet_try_def)
next
  case (Inr pkt)
  show ?thesis
  proof (cases "planter_of pkt")
    case None
    with Inr show ?thesis by (simp add: parse_packet_try_def py_print_printed_before)
  next
    case (Some p)
    obtain r p' b' w1 where
      l: "impute_loop now (Planter.patient_id p) [0..9] (p, False, w) = (r, (p', b', w1))"
      by (metis prod_cases3)
    show ?thesis
    proof (cases r)
      case None
      with Inr Some l show ?thesis
        by (simp add: parse_packet_try_def impute_loop_printed_before Let_def
            py_print_printed_before PacketOut_printed_before)
    next
      case (Some e)
      with Inr \<open>planter_of pkt = Some p\<close> l show ?thesis
        by (simp add: parse_packet_try_def impute_loop_printed_before Let_def)
    qed
  qed
qed

lemma parse_packet_printed_before:
  "parse_packet now bytes (printed_before ls w) = printed_before ls (parse_packet now bytes w)"
  by (cases "parse_packet_try now bytes w"; cases "fst (parse_packet_try now bytes w)")
    (simp_all add: parse_packet_def parse_packet_try_printed_before py_print_printed_before)

lemma handle_packet_in_printed_before:
  "handle_packet_in ev (printed_before ls w) = printed_before ls (handle_packet_in ev w)"
  by (cases ev; cases "snd ev")
    (simp_all add: handle_packet_in_def parse_packet_printed_before py_print_printed_before)

lemma packet_in_loop_printed_before:
  "packet_in_loop evs (printed_before ls w) = printed_before ls (packet_in_loop evs w)"
  unfolding packet_in_loop_def
  by (induction evs arbitrary: w) (simp_all add: handle_packet_in_printed_before)

subsection \<open>Payloads that do not decode\<close>

lemma world_printed_before: "w = printed_before (stdout w) (w\<lparr>stdout := []\<rparr>)"
  by (simp add: printed_before_def)

lemma append_stdout_printed_before:
  "w\<lparr>stdout := stdout w @ ls\<rparr> = printed_before (stdout w @ ls) (w\<lparr>stdout := []\<rparr>)"
  by (simp add: printed_before_def)

text \<open>
  C7. A payload that does not decode (the dissection raises on malformed or too short
  bytes, or the packet has no Planter header) is dropped: \<open>parse_packet\<close> returns, its only
  effect is one printed line that reports the failure, and the packets handled after it
  cause the same calls of \<open>PacketOut\<close>, the same log rows and the same draws, and print the
  same lines, as if the payload had never arrived.
\<close>

theorem decode_failure_is_dropped:
  assumes "decoding_fails bytes"
  shows "parse_packet now bytes w = w\<lparr>stdout := stdout w @ [drop_message bytes]\<rparr>
    \<and> (\<forall>evs. packet_out_calls (packet_in_loop ((now, PktIn bytes) # evs) w)
               = packet_out_calls (packet_in_loop evs w)
          \<and> packet_out_done (packet_in_loop ((now, PktIn bytes) # evs) w)
               = packet_out_done (packet_in_loop evs w)
          \<and> csv_log (packet_in_loop ((now, PktIn bytes) # evs) w)
               = csv_log (packet_in_loop evs w)
          \<and> rng (packet_in_loop ((now, PktIn bytes) # evs) w) = rng (packet_in_loop evs w)
          \<and> (\<exists>later. stdout (packet_in_loop evs w) = stdout w @ later
                \<and> stdout (packet_in_loop ((now, PktIn bytes) # evs) w)
                    = stdout w @ [Received_PacketIn (length bytes), drop_message bytes] @ later))"
proof -
  have dropped: "parse_packet now bytes v = v\<lparr>stdout := stdout v @ [drop_message bytes]\<rparr>" for v
  proof (cases "Ether_dissect bytes")
    case (Inl e)
    then show ?thesis
      using parse_packet_dropped [of bytes e now v] by (simp add: drop_message_def)
  next
    case (Inr pkt)
    with assms have "planter_of pkt = None" by (simp add: decoding_fails_def)
    with Inr have "Ether_dissect bytes = Inl StructError
        \<or> (\<exists>pkt. Ether_dissect bytes = Inr pkt \<and> planter_of pkt = None)"
      by blast
    from parse_packet_dropped [OF this, of now v] Inr show ?thesis
      by (simp add: drop_message_def)
  qed
  let ?e = "w\<lparr>stdout := []\<rparr>"
  let ?ms = "[Received_PacketIn (length bytes), drop_message bytes]"
  have h: "handle_packet_in (now, PktIn bytes) w = printed_before (stdout w @ ?ms) ?e"
    by (simp add: handle_packet_in_def dropped py_print_def printed_before_def)
  have bad: "packet_in_loop ((now, PktIn bytes) # evs) w
      = printed_before (stdout w @ ?ms) (packet_in_loop evs ?e)" for evs
  proof -
    have "packet_in_loop ((now, PktIn bytes) # evs) w
        = packet_in_loop evs (handle_packet_in (now, PktIn bytes) w)"
      by (simp add: packet_in_loop_def)
    then show ?thesis by (simp add: h packet_in_loop_printed_before)
  qed
  have ok: "packet_in_loop evs w = printed_before (stdout w) (packet_in_loop evs ?e)" for evs
  proof -
    have "packet_in_loop evs w = packet_in_loop evs (printed_before (stdout w) ?e)"
      using world_printed_before [of w] by simp
    then show ?thesis by (simp add: packet_in_loop_printed_before)
  qed
  have later: "\<exists>later. stdout (packet_in_loop evs w) = stdout w @ later
                \<and> stdout (packet_in_loop ((now, PktIn bytes) # evs) w)
                    = stdout w @ ?ms @ later" for evs
    by (rule exI [of _ "stdout (packet_in_loop evs ?e)"])
      (simp add: bad ok [of evs] printed_before_fields)
  have same: "packet_out_calls (packet_in_loop ((now, PktIn bytes) # evs) w)
               = packet_out_calls (packet_in_loop evs w)
          \<and> packet_out_done (packet_in_loop ((now, PktIn bytes) # evs) w)
               = packet_out_done (packet_in_loop evs w)
          \<and> csv_log (packet_in_loop ((now, PktIn bytes) # evs) w)
               = csv_log (packet_in_loop evs w)
          \<and> rng (packet_in_loop ((now, PktIn bytes) # evs) w) = rng (packet_in_loop evs w)" for evs
    by (simp add: bad ok [of evs] printed_before_fields)
  from dropped [of w] same later show ?thesis by blast
qed


lemma single_packet_in:
  "csv_log (packet_in_loop [(now, PktIn bytes)] world0) = csv_log (parse_packet now bytes world0)"
  "packet_out_calls (packet_in_loop [(now, PktIn bytes)] world0)
     = packet_out_calls (parse_packet now bytes world0)"
proof -
  have "py_print (Received_PacketIn (length bytes)) world0
      = printed_before [Received_PacketIn (length bytes)] world0"
    by (simp add: py_print_def printed_before_def world0_def)
  then have "packet_in_loop [(now, PktIn bytes)] world0
      = printed_before [Received_PacketIn (length bytes)] (parse_packet now bytes world0)"
    by (simp add: packet_in_loop_def handle_packet_in_def parse_packet_printed_before)
  then show "csv_log (packet_in_loop [(now, PktIn bytes)] world0)
      = csv_log (parse_packet now bytes world0)"
    and "packet_out_calls (packet_in_loop [(now, PktIn bytes)] world0)
     = packet_out_calls (parse_packet now bytes world0)"
    by (simp_all add: printed_before_fields)
qed

theorem decode_failure_is_dropped_witness:
  "decoding_fails [1, 2, 3]
   \<and> parse_packet ''12:00:00'' [1, 2, 3] world0
       = world0\<lparr>stdout := [Error_parsing_packet StructError]\<rparr>
   \<and> csv_log (packet_in_loop
        [(''12:00:00'', PktIn [1, 2, 3]), (''12:00:01'', PktIn (frame_of planter_gaps))] world0)
       = [(''12:00:01'', 17, 0, 0, 375), (''12:00:01'', 17, 2, 0, 86)]
   \<and> packet_out_calls (packet_in_loop
        [(''12:00:00'', PktIn [1, 2, 3]), (''12:00:01'', PktIn (frame_of planter_gaps))] world0)
       = [frame_of (planter_gaps\<lparr>feature0 := 375, feature2 := 86\<rparr>)]"
proof -
  have f: "decoding_fails [1, 2, 3]"
    by (simp add: decoding_fails_def Ether_dissect_def)
  have m: "drop_message [1, 2, 3] = Error_parsing_packet StructError"
    by (simp add: drop_message_def Ether_dissect_def)
  note t = decode_failure_is_dropped [OF f, of "''12:00:00''" world0]
  from t have a: "parse_packet ''12:00:00'' [1, 2, 3] world0
       = world0\<lparr>stdout := [Error_parsing_packet StructError]\<rparr>"
    by (simp add: m world0_empty)
  from t have "csv_log (packet_in_loop
        [(''12:00:00'', PktIn [1, 2, 3]), (''12:00:01'', PktIn (frame_of planter_gaps))] world0)
       = csv_log (packet_in_loop [(''12:00:01'', PktIn (frame_of planter_gaps))] world0)"
    and "packet_out_calls (packet_in_loop
        [(''12:00:00'', PktIn [1, 2, 3]), (''12:00:01'', PktIn (frame_of planter_gaps))] world0)
       = packet_out_calls (packet_in_loop [(''12:00:01'', PktIn (frame_of planter_gaps))] world0)"
    by blast+
  then have b: "csv_log (packet_in_loop
        [(''12:00:00'', PktIn [1, 2, 3]), (''12:00:01'', PktIn (frame_of planter_gaps))] world0)
       = [(''12:00:01'', 17, 0, 0, 375), (''12:00:01'', 17, 2, 0, 86)]"
    and c: "packet_out_calls (packet_in_loop
        [(''12:00:00'', PktIn [1, 2, 3]), (''12:00:01'', PktIn (frame_of planter_gaps))] world0)
       = [frame_of (planter_gaps\<lparr>feature0 := 375, feature2 := 86\<rparr>)]"
    by (simp_all add: single_packet_in run_gaps)
  from f a b c show ?thesis by (intro conjI)
qed

subsection \<open>What an imputation depends on\<close>

text \<open>
  C9. \<open>impute_value\<close> is a function of the sensor id and the state of the generator, and the
  loop passes it nothing else: take two runs of the loop body for the same numeric slot
  \<open>x\<close> that start from the same generator state, on any two feature vectors in which slot
  \<open>x\<close> reads 0, for any two patients, reception times and worlds. Both write the same value
  into slot \<open>x\<close>, the one \<open>impute_value x\<close> draws, both leave the generator in the same
  state, and neither changes another slot.
\<close>

theorem imputation_depends_on_sensor_and_entropy_only:
  assumes "rng w1 = rng w2" and "0 \<le> x" and "x \<le> 4"
    and "getattr_feature p1 x = Inr 0" and "getattr_feature p2 x = Inr 0"
  shows "slot_value (fst (snd (impute_feature t1 pid1 x (p1, b1, w1)))) x
           = fst (impute_value x (rng w1))
    \<and> slot_value (fst (snd (impute_feature t2 pid2 x (p2, b2, w2)))) x
           = fst (impute_value x (rng w1))
    \<and> rng (snd (snd (snd (impute_feature t1 pid1 x (p1, b1, w1))))) = snd (impute_value x (rng w1))
    \<and> rng (snd (snd (snd (impute_feature t2 pid2 x (p2, b2, w2))))) = snd (impute_value x (rng w1))
    \<and> (\<forall>j. j \<noteq> x \<longrightarrow>
          slot_value (fst (snd (impute_feature t1 pid1 x (p1, b1, w1)))) j = slot_value p1 j
        \<and> slot_value (fst (snd (impute_feature t2 pid2 x (p2, b2, w2)))) j = slot_value p2 j)"
proof -
  let ?v = "fst (impute_value x (rng w1))" and ?g = "snd (impute_value x (rng w1))"
  have run: "slot_value (fst (snd (impute_feature t pid x (p, b, w)))) x = ?v
      \<and> rng (snd (snd (snd (impute_feature t pid x (p, b, w))))) = ?g
      \<and> (\<forall>j. j \<noteq> x \<longrightarrow> slot_value (fst (snd (impute_feature t pid x (p, b, w)))) j = slot_value p j)"
    if z: "getattr_feature p x = Inr 0" and g: "rng w = rng w1" for t pid p b w
  proof -
    have iv: "impute_value x (rng w) = (?v, ?g)" using g by simp
    obtain p' where set: "setattr_feature p x ?v = Inr p'"
      and step: "impute_feature t pid x (p, b, w) =
        (None, (p', True,
           w\<lparr>rng := ?g, csv_log := csv_log w @ [(t, pid, x, 0, ?v)],
             stdout := stdout w @ [Imputing t x pid 0 ?v]\<rparr>))"
      using impute_feature_zero [OF assms(2,3) z iv, of t pid b] by blast
    have r: "12 \<le> ?v" "?v \<le> 400"
      using impute_value_numeric [OF assms(2,3), of "rng w1"] by simp_all
    have "getattr_feature p' x = Inr (word_of_int ?v)"
      using getattr_setattr_same [OF set] .
    then have a: "slot_value p' x = ?v"
      using r by (simp add: slot_value_def uint_word_of_int_16)
    have c: "slot_value p' j = slot_value p j" if "j \<noteq> x" for j
      using getattr_setattr_other [OF set that] by (simp add: slot_value_def)
    from a c show ?thesis by (simp add: step)
  qed
  from run [OF assms(4) refl, of t1 pid1 b1] run [OF assms(5) assms(1) [symmetric], of t2 pid2 b2]
  show ?thesis by blast
qed

theorem imputation_depends_on_sensor_and_entropy_only_witness:
  "rng world0 = rng (world0\<lparr>csv_log := [(''11:00:00'', 5, 1, 0, 93)]\<rparr>)
   \<and> (0::int) \<le> 2 \<and> (2::int) \<le> 4
   \<and> getattr_feature planter_gaps 2 = Inr 0
   \<and> getattr_feature (planter_six\<lparr>feature2 := 0\<rparr>) 2 = Inr 0
   \<and> fst (impute_value 2 (rng world0)) = 85
   \<and> slot_value (fst (snd (impute_feature ''12:00:00'' 17 2 (planter_gaps, False, world0)))) 2 = 85
   \<and> slot_value (fst (snd (impute_feature ''13:30:00'' 1000 2
        (planter_six\<lparr>feature2 := 0\<rparr>, True,
         world0\<lparr>csv_log := [(''11:00:00'', 5, 1, 0, 93)]\<rparr>)))) 2 = 85"
proof -
  have h: "rng world0 = rng (world0\<lparr>csv_log := [(''11:00:00'', 5, 1, 0, 93)]\<rparr>)"
    "(0::int) \<le> 2" "(2::int) \<le> 4"
    "getattr_feature planter_gaps 2 = Inr 0"
    "getattr_feature (planter_six\<lparr>feature2 := 0\<rparr>) 2 = Inr 0"
    by (simp_all add: getattr_feature_def planter_gaps_def planter_six_def)
  have v: "fst (impute_value 2 (rng world0)) = 85"
    by (simp add: impute_value_def randint_def world0_def)
  from imputation_depends_on_sensor_and_entropy_only [OF h,
      of "''12:00:00''" 17 False "''13:30:00''" 1000 True] v
  have "slot_value (fst (snd (impute_feature ''12:00:00'' 17 2 (planter_gaps, False, world0)))) 2 = 85"
    and "slot_value (fst (snd (impute_feature ''13:30:00'' 1000 2
        (planter_six\<lparr>feature2 := 0\<rparr>, True,
         world0\<lparr>csv_log := [(''11:00:00'', 5, 1, 0, 93)]\<rparr>)))) 2 = 85"
    by simp_all
  with h v show ?thesis by (intro conjI)
qed

subsection \<open>The heartbeat sender\<close>

lemma send_heartbeat_effect:
  "rng (send_heartbeat pid w) = rng w"
  "rpc_fails (send_heartbeat pid w) = rpc_fails w"
  "csv_log (send_heartbeat pid w) = csv_log w"
  "sleeps (send_heartbeat pid w) = sleeps w"
  "packet_out_calls (send_heartbeat pid w) = packet_out_calls w @ [raw (heartbeat_pkt pid)]"
  "packet_out_done (send_heartbeat pid w) =
     packet_out_done w @
       (if rpc_fails w (length (packet_out_calls w)) then [] else [raw (heartbeat_pkt pid)])"
  "stdout (send_heartbeat pid w) =
     stdout w @
       (if rpc_fails w (length (packet_out_calls w)) then [Error_sending_heartbeat pid RpcError]
        else [])"
  by (simp_all add: send_heartbeat_def PacketOut_def py_print_def Let_def)

text \<open>
  The \<open>for\<close> loop over the first \<open>n\<close> patients: the call for patient \<open>pid\<close> is call number
  \<open>length (packet_out_calls w) + pid\<close> of the connection.
\<close>

lemma heartbeats_effect:
  "rng (fold send_heartbeat [0..<n] w) = rng w
   \<and> rpc_fails (fold send_heartbeat [0..<n] w) = rpc_fails w
   \<and> csv_log (fold send_heartbeat [0..<n] w) = csv_log w
   \<and> sleeps (fold send_heartbeat [0..<n] w) = sleeps w
   \<and> packet_out_calls (fold send_heartbeat [0..<n] w)
       = packet_out_calls w @ map (\<lambda>pid. raw (heartbeat_pkt pid)) [0..<n]
   \<and> packet_out_done (fold send_heartbeat [0..<n] w)
       = packet_out_done w @ map (\<lambda>pid. raw (heartbeat_pkt pid))
           (filter (\<lambda>pid. \<not> rpc_fails w (length (packet_out_calls w) + pid)) [0..<n])
   \<and> stdout (fold send_heartbeat [0..<n] w)
       = stdout w @ map (\<lambda>pid. Error_sending_heartbeat pid RpcError)
           (filter (\<lambda>pid. rpc_fails w (length (packet_out_calls w) + pid)) [0..<n])"
proof (induction n)
  case 0
  then show ?case by simp
next
  case (Suc n)
  have f: "fold send_heartbeat [0..<Suc n] w = send_heartbeat n (fold send_heartbeat [0..<n] w)"
    by simp
  show ?case
    unfolding f using Suc.IH by (simp add: send_heartbeat_effect)
qed

lemma heartbeat_tick_effect:
  "rng (heartbeat_tick w) = rng w"
  "rpc_fails (heartbeat_tick w) = rpc_fails w"
  "csv_log (heartbeat_tick w) = csv_log w"
  "sleeps (heartbeat_tick w) = sleeps w @ [HEARTBEAT_NS]"
  "packet_out_calls (heartbeat_tick w)
     = packet_out_calls w @ map (\<lambda>pid. raw (heartbeat_pkt pid)) [0..<NUM_PATIENTS]"
  "packet_out_done (heartbeat_tick w)
     = packet_out_done w @ map (\<lambda>pid. raw (heartbeat_pkt pid))
         (filter (\<lambda>pid. \<not> rpc_fails w (length (packet_out_calls w) + pid)) [0..<NUM_PATIENTS])"
  "stdout (heartbeat_tick w)
     = stdout w @ map (\<lambda>pid. Error_sending_heartbeat pid RpcError)
         (filter (\<lambda>pid. rpc_fails w (length (packet_out_calls w) + pid)) [0..<NUM_PATIENTS])
       @ [Sent_heartbeats]"
  using heartbeats_effect [of NUM_PATIENTS w]
  by (simp_all add: heartbeat_tick_def sleep_def py_print_def)

lemma heartbeat_pkt_dissects:
  "Ether_dissect (raw (heartbeat_pkt pid)) = Inr (heartbeat_pkt pid)"
proof -
  let ?s = "\<lparr> patient_id = of_nat pid, sensor_id = 999, timestamp = 0, feature_value = 0 \<rparr> :: Sensor"
  let ?bs = "raw (heartbeat_pkt pid)"
  have bs: "?bs = [0x00, 0x04, 0x00, 0x00, 0x00, 0x00] @ [0x08, 0x00, 0x27, 0xbc, 0xfc, 0xb5]
      @ pack_H ETHERTYPE_SENSOR @ Sensor_build ?s @ []"
    by (simp add: raw_def heartbeat_pkt_def)
  have t: "field 12 2 ?bs = ETHERTYPE_SENSOR"
    by (simp add: bs field_def length_pack be_word_pack_H)
  have r: "drop 14 ?bs = Sensor_build ?s @ []"
    by (simp add: bs length_pack)
  have ne: "ETHERTYPE_SENSOR \<noteq> ETHERTYPE_PLANTER"
    by (simp add: ETHERTYPE_SENSOR_def ETHERTYPE_PLANTER_def)
  have len: "length ?bs = 30" by (simp add: bs length_pack length_Sensor_build)
  have tk: "take 6 ?bs = [0x00, 0x04, 0x00, 0x00, 0x00, 0x00]"
    "take 6 (drop 6 ?bs) = [0x08, 0x00, 0x27, 0xbc, 0xfc, 0xb5]"
    by (simp_all add: bs)
  have "Ether_dissect ?bs =
      Inr (\<lparr> dst = take 6 ?bs, src = take 6 (drop 6 ?bs), type = ETHERTYPE_SENSOR \<rparr>,
           Sensor_layer (Sensor_dissect (Sensor_build ?s @ [])) (drop 16 (Sensor_build ?s @ [])))"
    unfolding Ether_dissect_def Let_def r t using ne len
    by (auto simp: length_Sensor_build)
  also have "\<dots> = Inr (heartbeat_pkt pid)"
    unfolding Sensor_dissect_build tk by (simp add: heartbeat_pkt_def length_Sensor_build)
  finally show ?thesis .
qed

text \<open>
  C8. In one tick the heartbeat of every patient is handed to \<open>PacketOut\<close>, whichever of
  the calls raise: the calls of a tick are the heartbeats of patients 0 to
  \<open>NUM_PATIENTS - 1\<close> in order. A call that raises prints one error line that names the
  patient; every call that does not raise delivers its heartbeat.
\<close>

theorem heartbeat_failure_is_local:
  "packet_out_calls (heartbeat_tick w)
     = packet_out_calls w @ map (\<lambda>pid. raw (heartbeat_pkt pid)) [0..<NUM_PATIENTS]
   \<and> packet_out_done (heartbeat_tick w)
     = packet_out_done w @ map (\<lambda>pid. raw (heartbeat_pkt pid))
         (filter (\<lambda>pid. \<not> rpc_fails w (length (packet_out_calls w) + pid)) [0..<NUM_PATIENTS])
   \<and> stdout (heartbeat_tick w)
     = stdout w @ map (\<lambda>pid. Error_sending_heartbeat pid RpcError)
         (filter (\<lambda>pid. rpc_fails w (length (packet_out_calls w) + pid)) [0..<NUM_PATIENTS])
       @ [Sent_heartbeats]
   \<and> (\<forall>pid<NUM_PATIENTS.
         if rpc_fails w (length (packet_out_calls w) + pid)
         then Error_sending_heartbeat pid RpcError
                \<in> set (drop (length (stdout w)) (stdout (heartbeat_tick w)))
         else raw (heartbeat_pkt pid)
                \<in> set (drop (length (packet_out_done w)) (packet_out_done (heartbeat_tick w))))"
proof -
  note e = heartbeat_tick_effect(5,6,7) [of w]
  have "if rpc_fails w (length (packet_out_calls w) + pid)
         then Error_sending_heartbeat pid RpcError
                \<in> set (drop (length (stdout w)) (stdout (heartbeat_tick w)))
         else raw (heartbeat_pkt pid)
                \<in> set (drop (length (packet_out_done w)) (packet_out_done (heartbeat_tick w)))"
    if "pid < NUM_PATIENTS" for pid
    using that by (simp add: e)
  with e show ?thesis by blast
qed

theorem heartbeat_failure_is_local_witness:
  "rpc_fails world_flaky 1 \<and> \<not> rpc_fails world_flaky 0 \<and> \<not> rpc_fails world_flaky 2
   \<and> (1::nat) < NUM_PATIENTS \<and> (2::nat) < NUM_PATIENTS \<and> (1999::nat) < NUM_PATIENTS
   \<and> length (packet_out_calls (heartbeat_tick world_flaky)) = 2000
   \<and> Error_sending_heartbeat 1 RpcError \<in> set (stdout (heartbeat_tick world_flaky))
   \<and> raw (heartbeat_pkt 2) \<in> set (packet_out_done (heartbeat_tick world_flaky))
   \<and> raw (heartbeat_pkt 1999) \<in> set (packet_out_done (heartbeat_tick world_flaky))
   \<and> length (packet_out_done (heartbeat_tick world_flaky)) = 1999"
proof -
  have f: "rpc_fails world_flaky = (\<lambda>k. k = 1)" "packet_out_calls world_flaky = []"
    "packet_out_done world_flaky = []" "stdout world_flaky = []"
    by (simp_all add: world_flaky_def world0_def)
  note t = heartbeat_failure_is_local [of world_flaky]
  have n: "(1::nat) < NUM_PATIENTS" "(2::nat) < NUM_PATIENTS" "(1999::nat) < NUM_PATIENTS"
    by (simp_all add: NUM_PATIENTS_def)
  from t have all: "\<forall>pid<NUM_PATIENTS.
         if rpc_fails world_flaky (length (packet_out_calls world_flaky) + pid)
         then Error_sending_heartbeat pid RpcError
                \<in> set (drop (length (stdout world_flaky)) (stdout (heartbeat_tick world_flaky)))
         else raw (heartbeat_pkt pid)
                \<in> set (drop (length (packet_out_done world_flaky))
                      (packet_out_done (heartbeat_tick world_flaky)))"
    by blast
  from all n(1) have a: "Error_sending_heartbeat 1 RpcError \<in> set (stdout (heartbeat_tick world_flaky))"
    by (auto simp: f dest!: spec [of _ 1])
  from all n(2) have b: "raw (heartbeat_pkt 2) \<in> set (packet_out_done (heartbeat_tick world_flaky))"
    by (auto simp: f dest!: spec [of _ 2])
  from all n(3) have c: "raw (heartbeat_pkt 1999) \<in> set (packet_out_done (heartbeat_tick world_flaky))"
    by (auto simp: f dest!: spec [of _ 1999])
  from t have "length (packet_out_calls (heartbeat_tick world_flaky)) = NUM_PATIENTS"
    by (simp add: f)
  then have l: "length (packet_out_calls (heartbeat_tick world_flaky)) = 2000"
    by (simp only: NUM_PATIENTS_def)
  have one: "length (filter (\<lambda>pid. pid = 1 \<and> True) [0..<NUM_PATIENTS]) = 1"
    using n(1) by (subst length_filter_distinct) simp_all
  have "length (filter (\<lambda>pid. pid = 1) [0..<NUM_PATIENTS])
      + length (filter (\<lambda>pid. \<not> pid = 1) [0..<NUM_PATIENTS]) = length [0..<NUM_PATIENTS]"
    by (rule sum_length_filter_compl)
  with one have "length (filter (\<lambda>pid. \<not> pid = 1) [0..<NUM_PATIENTS]) = NUM_PATIENTS - 1"
    by simp
  with t have "length (packet_out_done (heartbeat_tick world_flaky)) = NUM_PATIENTS - 1"
    by (simp add: f)
  then have d: "length (packet_out_done (heartbeat_tick world_flaky)) = 1999"
    by (simp add: NUM_PATIENTS_def)
  have r: "rpc_fails world_flaky 1" "\<not> rpc_fails world_flaky 0" "\<not> rpc_fails world_flaky 2"
    by (simp_all add: f)
  from r n l a b c d show ?thesis by (intro conjI)
qed

lemma heartbeat_loop_effect:
  "sleeps (heartbeat_loop n w) = sleeps w @ replicate n HEARTBEAT_NS
   \<and> packet_out_calls (heartbeat_loop n w)
       = packet_out_calls w
         @ concat (replicate n (map (\<lambda>pid. raw (heartbeat_pkt pid)) [0..<NUM_PATIENTS]))"
proof (induction n arbitrary: w)
  case 0
  then show ?case by simp
next
  case (Suc n)
  have "replicate n HEARTBEAT_NS @ [HEARTBEAT_NS] = HEARTBEAT_NS # replicate n HEARTBEAT_NS"
    by (simp add: replicate_append_same)
  then have "sleeps w @ HEARTBEAT_NS # replicate n HEARTBEAT_NS
      = sleeps w @ replicate n HEARTBEAT_NS @ [HEARTBEAT_NS]" by simp
  with Suc.IH [of "heartbeat_tick w"] show ?case
    by (simp add: heartbeat_tick_effect)
qed

text \<open>
  C5. Between any two rounds of heartbeats the sender sleeps \<open>HEARTBEAT_NS\<close> = 15 seconds:
  after \<open>n\<close> iterations of its loop it has slept \<open>n\<close> times 15 seconds and has called
  \<open>PacketOut\<close>, in each iteration, once for every patient id from 0 to \<open>NUM_PATIENTS - 1\<close>
  (2000 patients) in order. The frame for patient \<open>pid\<close> is the frame of a sensor reading
  (destination, EtherType 0x1235 and Sensor header as the sensor simulator builds them) with
  that patient id, sensor id 999, timestamp 0 and feature value 0, and it dissects back to
  these fields.
\<close>

theorem heartbeat_every_interval_for_every_patient:
  "HEARTBEAT_NS = 15 \<and> NUM_PATIENTS = 2000
   \<and> sleeps (heartbeat_loop n w) = sleeps w @ replicate n HEARTBEAT_NS
   \<and> packet_out_calls (heartbeat_loop n w)
       = packet_out_calls w
         @ concat (replicate n (map (\<lambda>pid. raw (heartbeat_pkt pid)) [0..<NUM_PATIENTS]))
   \<and> heartbeat_pkt pid = send_sensor_packet [0x08, 0x00, 0x27, 0xbc, 0xfc, 0xb5] pid 999 0 0
   \<and> Ether_dissect (raw (heartbeat_pkt pid))
       = Inr (\<lparr> dst = [0x00, 0x04, 0x00, 0x00, 0x00, 0x00],
                src = [0x08, 0x00, 0x27, 0xbc, 0xfc, 0xb5], type = 0x1235 \<rparr>,
              Sensor_layer \<lparr> patient_id = of_nat pid, sensor_id = 999, timestamp = 0,
                             feature_value = 0 \<rparr> [])
   \<and> (pid < NUM_PATIENTS \<longrightarrow> unat (of_nat pid :: 32 word) = pid)"
proof -
  have a: "heartbeat_pkt pid = send_sensor_packet [0x08, 0x00, 0x27, 0xbc, 0xfc, 0xb5] pid 999 0 0"
    by (simp add: heartbeat_pkt_def send_sensor_packet_def)
  have b: "Ether_dissect (raw (heartbeat_pkt pid))
       = Inr (\<lparr> dst = [0x00, 0x04, 0x00, 0x00, 0x00, 0x00],
                src = [0x08, 0x00, 0x27, 0xbc, 0xfc, 0xb5], type = 0x1235 \<rparr>,
              Sensor_layer \<lparr> patient_id = of_nat pid, sensor_id = 999, timestamp = 0,
                             feature_value = 0 \<rparr> [])"
    unfolding heartbeat_pkt_dissects by (simp add: heartbeat_pkt_def ETHERTYPE_SENSOR_def)
  have c: "pid < NUM_PATIENTS \<longrightarrow> unat (of_nat pid :: 32 word) = pid"
    by (simp add: NUM_PATIENTS_def unat_of_nat)
  from heartbeat_loop_effect [of n w] a b c show ?thesis
    by (simp add: HEARTBEAT_NS_def NUM_PATIENTS_def)
qed

theorem heartbeat_every_interval_for_every_patient_witness:
  "(1999::nat) < NUM_PATIENTS
   \<and> unat (of_nat 1999 :: 32 word) = 1999
   \<and> sleeps (heartbeat_loop 3 world0) = [15, 15, 15]
   \<and> length (packet_out_calls (heartbeat_loop 3 world0)) = 6000
   \<and> Ether_dissect (raw (heartbeat_pkt 1999))
       = Inr (\<lparr> dst = [0x00, 0x04, 0x00, 0x00, 0x00, 0x00],
                src = [0x08, 0x00, 0x27, 0xbc, 0xfc, 0xb5], type = 0x1235 \<rparr>,
              Sensor_layer \<lparr> patient_id = 1999, sensor_id = 999, timestamp = 0,
                             feature_value = 0 \<rparr> [])"
proof -
  note t = heartbeat_every_interval_for_every_patient [of 3 world0 1999]
  have n: "(1999::nat) < NUM_PATIENTS" by (simp add: NUM_PATIENTS_def)
  from t n have u: "unat (of_nat 1999 :: 32 word) = 1999" by blast
  from t have "sleeps (heartbeat_loop 3 world0) = sleeps world0 @ replicate 3 HEARTBEAT_NS"
    by blast
  then have s: "sleeps (heartbeat_loop 3 world0) = [15, 15, 15]"
    by (simp add: world0_empty HEARTBEAT_NS_def numeral_3_eq_3)
  from t have "packet_out_calls (heartbeat_loop 3 world0)
       = packet_out_calls world0
         @ concat (replicate 3 (map (\<lambda>pid. raw (heartbeat_pkt pid)) [0..<NUM_PATIENTS]))"
    by blast
  then have "length (packet_out_calls (heartbeat_loop 3 world0)) = 3 * NUM_PATIENTS"
    by (simp add: world0_empty length_concat numeral_3_eq_3)
  then have l: "length (packet_out_calls (heartbeat_loop 3 world0)) = 6000"
    by (simp add: NUM_PATIENTS_def)
  from t have "Ether_dissect (raw (heartbeat_pkt 1999))
       = Inr (\<lparr> dst = [0x00, 0x04, 0x00, 0x00, 0x00, 0x00],
                src = [0x08, 0x00, 0x27, 0xbc, 0xfc, 0xb5], type = 0x1235 \<rparr>,
              Sensor_layer \<lparr> patient_id = of_nat 1999, sensor_id = 999, timestamp = 0,
                             feature_value = 0 \<rparr> [])"
    by blast
  then have d: "Ether_dissect (raw (heartbeat_pkt 1999))
       = Inr (\<lparr> dst = [0x00, 0x04, 0x00, 0x00, 0x00, 0x00],
                src = [0x08, 0x00, 0x27, 0xbc, 0xfc, 0xb5], type = 0x1235 \<rparr>,
              Sensor_layer \<lparr> patient_id = 1999, sensor_id = 999, timestamp = 0,
                             feature_value = 0 \<rparr> [])"
    by simp
  from n u s l d show ?thesis by (intro conjI)
qed

section \<open>Properties of the window store and the gate\<close>

subsection \<open>One submission per window\<close>

lemma gate_inv_empty: "gate_inv empty_store []"
  by (simp add: gate_inv_def empty_store_def)

lemma gate_inv_update_slot:
  assumes "gate_inv st subs"
  shows "gate_inv (update_slot st pid sensor value ts now) subs"
proof (cases "N_SLOTS \<le> sensor")
  case True
  with assms show ?thesis by (simp add: update_slot_def)
next
  case False
  from assms have inv: "\<And>q. case windows st q of
           None \<Rightarrow> (\<forall>s\<in>set subs. sub_patient s = q \<longrightarrow> sub_window s < opened st q)
         | Some w \<Rightarrow>
             window_no w < opened st q \<and> \<not> finalized w
             \<and> (\<forall>s\<in>set subs. sub_patient s = q \<longrightarrow> sub_window s < window_no w)"
    by (simp add: gate_inv_def)
  show ?thesis
  proof (cases "windows st pid")
    case None
    with inv [of pid] have old: "\<forall>s\<in>set subs. sub_patient s = pid \<longrightarrow> sub_window s < opened st pid"
      by simp
    show ?thesis
      unfolding gate_inv_def
    proof
      fix q
      show "case windows (update_slot st pid sensor value ts now) q of
           None \<Rightarrow> (\<forall>s\<in>set subs. sub_patient s = q \<longrightarrow>
                      sub_window s < opened (update_slot st pid sensor value ts now) q)
         | Some w \<Rightarrow>
             window_no w < opened (update_slot st pid sensor value ts now) q \<and> \<not> finalized w
             \<and> (\<forall>s\<in>set subs. sub_patient s = q \<longrightarrow> sub_window s < window_no w)"
        using inv [of q] old None False
        by (cases "q = pid")
          (auto simp: update_slot_def current_window_def new_window_def split: option.splits)
    qed
  next
    case (Some w)
    with inv [of pid] have w: "window_no w < opened st pid" "\<not> finalized w"
      "\<forall>s\<in>set subs. sub_patient s = pid \<longrightarrow> sub_window s < window_no w"
      by simp_all
    show ?thesis
      unfolding gate_inv_def
    proof
      fix q
      show "case windows (update_slot st pid sensor value ts now) q of
           None \<Rightarrow> (\<forall>s\<in>set subs. sub_patient s = q \<longrightarrow>
                      sub_window s < opened (update_slot st pid sensor value ts now) q)
         | Some w \<Rightarrow>
             window_no w < opened (update_slot st pid sensor value ts now) q \<and> \<not> finalized w
             \<and> (\<forall>s\<in>set subs. sub_patient s = q \<longrightarrow> sub_window s < window_no w)"
        using inv [of q] w Some False
        by (cases "q = pid")
          (auto simp: update_slot_def current_window_def split: option.splits)
    qed
  qed
qed

text \<open>
  Finalization hands over the window that is in the store, which no earlier submission
  came from, and leaves the patient without a window.
\<close>

lemma gate_inv_finalize:
  assumes "gate_inv st subs" and "finalize (st, g) pid = (out, (st', g'))"
  shows "gate_inv st' (subs @ (case out of None \<Rightarrow> [] | Some sub \<Rightarrow> [sub]))"
    and "\<And>sub. out = Some sub \<Longrightarrow>
      (sub_patient sub, sub_window sub) \<notin> (\<lambda>s. (sub_patient s, sub_window s)) ` set subs"
    and "windows st' pid = None"
proof -
  from assms(1) have inv: "\<And>q. case windows st q of
           None \<Rightarrow> (\<forall>s\<in>set subs. sub_patient s = q \<longrightarrow> sub_window s < opened st q)
         | Some w \<Rightarrow>
             window_no w < opened st q \<and> \<not> finalized w
             \<and> (\<forall>s\<in>set subs. sub_patient s = q \<longrightarrow> sub_window s < window_no w)"
    by (simp add: gate_inv_def)
  show c: "windows st' pid = None"
    using assms(2) by (auto simp: finalize_def snapshot_and_clear_def split: option.splits prod.splits)
  show "gate_inv st' (subs @ (case out of None \<Rightarrow> [] | Some sub \<Rightarrow> [sub]))"
  proof (cases "windows st pid")
    case None
    with assms(2) have "out = None" "st' = st\<lparr>windows := (windows st)(pid := None)\<rparr>"
      by (simp_all add: finalize_def snapshot_and_clear_def)
    moreover have "(windows st)(pid := None) = windows st" using None by auto
    ultimately show ?thesis using assms(1) by (simp add: gate_inv_def)
  next
    case (Some w)
    obtain vs imp g1 where f: "fill_slots [0..<N_SLOTS] (slots w) g = (vs, imp, g1)"
      by (metis prod_cases3)
    let ?sub = "\<lparr> sub_patient = pid, sub_window = window_no w,
                        sub_timestamp = window_timestamp w, sub_vector = vs,
                        sub_imputed = imp \<rparr>"
    from assms(2) Some f have o: "out = Some ?sub"
      and s: "st' = st\<lparr>windows := (windows st)(pid := None)\<rparr>"
      by (simp_all add: finalize_def snapshot_and_clear_def)
    from inv [of pid] Some have w: "window_no w < opened st pid"
      "\<forall>s\<in>set subs. sub_patient s = pid \<longrightarrow> sub_window s < window_no w"
      by simp_all
    show ?thesis
      unfolding gate_inv_def
    proof
      fix q
      show "case windows st' q of
           None \<Rightarrow> (\<forall>s\<in>set (subs @ (case out of None \<Rightarrow> [] | Some sub \<Rightarrow> [sub])).
                      sub_patient s = q \<longrightarrow> sub_window s < opened st' q)
         | Some w \<Rightarrow>
             window_no w < opened st' q \<and> \<not> finalized w
             \<and> (\<forall>s\<in>set (subs @ (case out of None \<Rightarrow> [] | Some sub \<Rightarrow> [sub])).
                   sub_patient s = q \<longrightarrow> sub_window s < window_no w)"
        using inv [of q] w o s
        by (cases "q = pid") (auto split: option.splits)
    qed
  qed
  show "(sub_patient sub, sub_window sub) \<notin> (\<lambda>s. (sub_patient s, sub_window s)) ` set subs"
    if "out = Some sub" for sub
  proof (cases "windows st pid")
    case None
    with assms(2) that show ?thesis by (simp add: finalize_def snapshot_and_clear_def)
  next
    case (Some w)
    from inv [of pid] Some have w: 
      "\<forall>s\<in>set subs. sub_patient s = pid \<longrightarrow> sub_window s < window_no w"
      by simp
    from assms(2) Some that have "sub_patient sub = pid" "sub_window sub = window_no w"
      by (auto simp: finalize_def snapshot_and_clear_def split: prod.splits)
    with w show ?thesis by auto
  qed
qed

lemma gate_inv_ingest:
  assumes "gate_inv st subs" and "ingest now r (st, g) = (out, (st', g'))"
  shows "gate_inv st' (subs @ (case out of None \<Rightarrow> [] | Some sub \<Rightarrow> [sub]))"
    and "\<And>sub. out = Some sub \<Longrightarrow>
      (sub_patient sub, sub_window sub) \<notin> (\<lambda>s. (sub_patient s, sub_window s)) ` set subs"
    and "\<And>sub. out = Some sub \<Longrightarrow> windows st' (sub_patient sub) = None"
proof -
  obtain pid sensor ts v where r: "r = Reading pid sensor ts v" by (cases r)
  let ?st1 = "update_slot st pid sensor v ts now"
  have i1: "gate_inv ?st1 subs" using assms(1) by (rule gate_inv_update_slot)
  consider (fin0) "finalize (st, g) pid = (out, (st', g'))"
    | (fin1) "finalize (?st1, g) pid = (out, (st', g'))"
    | (same) "out = None" "st' = st"
    | (upd) "out = None" "st' = ?st1"
    using assms(2) unfolding r
    by (auto simp: ingest_def Let_def split: if_splits option.splits)
  then have all: "gate_inv st' (subs @ (case out of None \<Rightarrow> [] | Some sub \<Rightarrow> [sub]))
    \<and> (\<forall>sub. out = Some sub \<longrightarrow>
      (sub_patient sub, sub_window sub) \<notin> (\<lambda>s. (sub_patient s, sub_window s)) ` set subs
      \<and> windows st' (sub_patient sub) = None)"
  proof cases
    case fin0
    have p: "sub_patient sub = pid" if "out = Some sub" for sub
      using fin0 that
      by (auto simp: finalize_def snapshot_and_clear_def split: option.splits prod.splits)
    from gate_inv_finalize [OF assms(1) fin0] p show ?thesis by auto
  next
    case fin1
    have p: "sub_patient sub = pid" if "out = Some sub" for sub
      using fin1 that
      by (auto simp: finalize_def snapshot_and_clear_def split: option.splits prod.splits)
    from gate_inv_finalize [OF i1 fin1] p show ?thesis by auto
  next
    case same
    with assms(1) show ?thesis by simp
  next
    case upd
    with i1 show ?thesis by simp
  qed
  from all show "gate_inv st' (subs @ (case out of None \<Rightarrow> [] | Some sub \<Rightarrow> [sub]))" by simp
  from all show "\<And>sub. out = Some sub \<Longrightarrow>
      (sub_patient sub, sub_window sub) \<notin> (\<lambda>s. (sub_patient s, sub_window s)) ` set subs"
    by simp
  from all show "\<And>sub. out = Some sub \<Longrightarrow> windows st' (sub_patient sub) = None" by simp
qed

lemma ingest_all_distinct:
  assumes "gate_inv st subs" and "distinct (map (\<lambda>s. (sub_patient s, sub_window s)) subs)"
    and "ingest_all evs (st, g) = (new, (st', g'))"
  shows "gate_inv st' (subs @ new)
    \<and> distinct (map (\<lambda>s. (sub_patient s, sub_window s)) (subs @ new))"
  using assms
proof (induction evs arbitrary: st g subs new)
  case Nil
  then show ?case by simp
next
  case (Cons ev evs)
  obtain out st1 g1 where i: "ingest (fst ev) (snd ev) (st, g) = (out, (st1, g1))"
    by (metis prod_cases3)
  obtain rest st2 g2 where a: "ingest_all evs (st1, g1) = (rest, (st2, g2))"
    by (metis prod_cases3)
  let ?o = "case out of None \<Rightarrow> [] | Some sub \<Rightarrow> [sub]"
  from Cons.prems(3) i a have n: "new = ?o @ rest" and e: "st2 = st'" "g2 = g'" by simp_all
  note a' = a [unfolded e]
  note g = gate_inv_ingest [OF Cons.prems(1) i]
  have d: "distinct (map (\<lambda>s. (sub_patient s, sub_window s)) (subs @ ?o))"
    using Cons.prems(2) g(2) by (cases out) auto
  from Cons.IH [OF g(1) d a'] n show ?case by simp
qed

lemma heartbeat_after_submission:
  assumes "ingest now r (st, g) = (Some sub, (st', g'))"
  shows "ingest now' (Reading (sub_patient sub) 999 ts 0) (st', g') = (None, (st', g'))"
proof -
  have "windows st' (sub_patient sub) = None"
  proof -
    obtain pid sensor ts v where r: "r = Reading pid sensor ts v" by (cases r)
    let ?st1 = "update_slot st pid sensor v ts now"
    from assms consider "finalize (st, g) pid = (Some sub, (st', g'))"
      | "finalize (?st1, g) pid = (Some sub, (st', g'))"
      unfolding r by (auto simp: ingest_def Let_def split: if_splits option.splits)
    then show ?thesis
      by cases (auto simp: finalize_def snapshot_and_clear_def split: option.splits prod.splits)
  qed
  then show ?thesis by (simp add: ingest_def)
qed

lemmas gate_defs = ingest_def update_slot_def current_window_def new_window_def
  is_complete_def finalize_def snapshot_and_clear_def N_SLOTS_def WINDOW_TIMEOUT_def
  empty_store_def Let_def

lemma run_completing_then_ticks:
  "map (\<lambda>s. (sub_patient s, sub_window s, sub_imputed s))
     (fst (ingest_all completing_then_ticks (empty_store, siterate Suc 25))) = [(7, 0, [])]"
  by (simp add: completing_then_ticks_def nine_readings_def gate_defs upt_rec)

lemma run_tick_then_completing:
  "map (\<lambda>s. (sub_patient s, sub_window s, sub_imputed s))
     (fst (ingest_all tick_then_completing (empty_store, siterate Suc 25))) = [(7, 0, [9])]"
  by (simp add: tick_then_completing_def nine_readings_def gate_defs upt_rec
      impute_value_def randint_def)

text \<open>
  C2. No window is submitted twice. In the window store of the specification, run from
  the empty store on any sequence of sensor readings and heartbeat ticks, for any patients
  and in any order, no two submissions come from the same window of the same patient; and
  once an event has produced a submission for a patient, a heartbeat tick for that patient
  that follows it produces none. In the controller, a payload that decodes to a frame with
  a Planter header causes exactly one call of \<open>PacketOut\<close>, and a payload that does not
  decode causes none.
\<close>

theorem at_most_one_submission_per_window:
  "distinct (map (\<lambda>s. (sub_patient s, sub_window s)) (fst (ingest_all evs (empty_store, g))))
   \<and> (\<forall>sub s'. ingest t r s = (Some sub, s')
          \<longrightarrow> ingest t' (Reading (sub_patient sub) 999 ts 0) s' = (None, s'))
   \<and> (Ether_dissect bytes = Inr pkt \<and> planter_of pkt = Some p
          \<longrightarrow> length (new_calls w (parse_packet now bytes w)) = 1)
   \<and> (decoding_fails bytes \<longrightarrow> new_calls w (parse_packet now bytes w) = [])"
proof -
  obtain new st' g' where a: "ingest_all evs (empty_store, g) = (new, (st', g'))"
    by (metis prod_cases3)
  from ingest_all_distinct [OF gate_inv_empty _ a]
  have c1: "distinct (map (\<lambda>s. (sub_patient s, sub_window s)) (fst (ingest_all evs (empty_store, g))))"
    by (simp add: a)
  have c2: "\<forall>sub s'. ingest t r s = (Some sub, s')
          \<longrightarrow> ingest t' (Reading (sub_patient sub) 999 ts 0) s' = (None, s')"
  proof (intro allI impI)
    fix sub s' assume i: "ingest t r s = (Some sub, s')"
    obtain st0 g0 where s: "s = (st0, g0)" by (cases s)
    obtain st1 g1 where s': "s' = (st1, g1)" by (cases s')
    from heartbeat_after_submission [OF i [unfolded s s']]
    show "ingest t' (Reading (sub_patient sub) 999 ts 0) s' = (None, s')"
      by (simp add: s')
  qed
  have c3: "length (new_calls w (parse_packet now bytes w)) = 1"
    if "Ether_dissect bytes = Inr pkt \<and> planter_of pkt = Some p"
  proof -
    from that have d: "Ether_dissect bytes = Inr pkt" "planter_of pkt = Some p" by simp_all
    from d show ?thesis
      by (rule parse_packet_effect [where w = w and now = now]) simp
  qed
  have c4: "new_calls w (parse_packet now bytes w) = []" if f: "decoding_fails bytes"
  proof (cases "Ether_dissect bytes")
    case (Inl e)
    from parse_packet_dropped [of bytes e now w] Inl show ?thesis
      by (simp add: new_calls_def)
  next
    case (Inr q)
    with f have "Ether_dissect bytes = Inl StructError
        \<or> (\<exists>pkt. Ether_dissect bytes = Inr pkt \<and> planter_of pkt = None)"
      by (simp add: decoding_fails_def)
    from parse_packet_dropped [OF this, of now w] show ?thesis
      by (simp add: new_calls_def)
  qed
  from c1 c2 c3 c4 show ?thesis by blast
qed

theorem at_most_one_submission_per_window_witness:
  "map (\<lambda>s. (sub_patient s, sub_window s))
       (fst (ingest_all completing_then_ticks (empty_store, siterate Suc 25))) = [(7, 0)]
   \<and> map (\<lambda>s. (sub_patient s, sub_window s))
       (fst (ingest_all tick_then_completing (empty_store, siterate Suc 25))) = [(7, 0)]
   \<and> distinct (map (\<lambda>s. (sub_patient s, sub_window s))
       (fst (ingest_all tick_then_completing (empty_store, siterate Suc 25))))
   \<and> Ether_dissect (frame_of planter_gaps) = Inr (hdr0, Planter_layer planter_gaps [])
   \<and> planter_of (hdr0, Planter_layer planter_gaps []) = Some planter_gaps
   \<and> length (new_calls world0 (parse_packet ''12:00:00'' (frame_of planter_gaps) world0)) = 1
   \<and> decoding_fails [1, 2, 3]
   \<and> new_calls world0 (parse_packet ''12:00:00'' [1, 2, 3] world0) = []"
proof -
  have k: "(\<lambda>s. (sub_patient s, sub_window s))
      = (\<lambda>t. (fst t, fst (snd t))) \<circ> (\<lambda>s. (sub_patient s, sub_window s, sub_imputed s))"
    by (simp add: fun_eq_iff)
  have r1: "map (\<lambda>s. (sub_patient s, sub_window s))
       (fst (ingest_all completing_then_ticks (empty_store, siterate Suc 25))) = [(7, 0)]"
    unfolding k map_map [symmetric] run_completing_then_ticks by simp
  have r2: "map (\<lambda>s. (sub_patient s, sub_window s))
       (fst (ingest_all tick_then_completing (empty_store, siterate Suc 25))) = [(7, 0)]"
    unfolding k map_map [symmetric] run_tick_then_completing by simp
  have d: "Ether_dissect (frame_of planter_gaps) = Inr (hdr0, Planter_layer planter_gaps [])"
    and po: "planter_of (hdr0, Planter_layer planter_gaps []) = Some planter_gaps"
    by (simp_all add: frame_of_dissect)
  have f: "decoding_fails [1, 2, 3]"
    by (simp add: decoding_fails_def Ether_dissect_def)
  note t = at_most_one_submission_per_window [of tick_then_completing "siterate Suc 25"
      _ _ _ _ _ "frame_of planter_gaps" "(hdr0, Planter_layer planter_gaps [])" planter_gaps
      world0 "''12:00:00''"]
  note t' = at_most_one_submission_per_window [of tick_then_completing "siterate Suc 25"
      _ _ _ _ _ "[1, 2, 3]" _ _ world0 "''12:00:00''"]
  from t have r3: "distinct (map (\<lambda>s. (sub_patient s, sub_window s))
       (fst (ingest_all tick_then_completing (empty_store, siterate Suc 25))))"
    by blast
  from t d po have l: "length (new_calls world0 (parse_packet ''12:00:00'' (frame_of planter_gaps) world0)) = 1"
    by blast
  from t' f have e: "new_calls world0 (parse_packet ''12:00:00'' [1, 2, 3] world0) = []"
    by blast
  from r1 r2 r3 d po l f e show ?thesis by (intro conjI)
qed

subsection \<open>First value wins\<close>

lemma update_slot_rejects:
  assumes "windows st pid = Some w" and "\<not> finalized w" and "slots w sensor = Some v0"
  shows "update_slot st pid sensor v ts now = st"
proof -
  have "(windows st)(pid \<mapsto> w) = windows st" using assms(1) by auto
  with assms show ?thesis
    by (simp add: update_slot_def current_window_def)
qed

text \<open>An observed value stays in its slot whatever calls of \<open>update_slot\<close> follow.\<close>

lemma update_slot_keeps_observed:
  assumes "windows st pid = Some w" and "\<not> finalized w" and "slots w sensor = Some v0"
  shows "\<exists>w'. windows (update_slot st q s v ts now) pid = Some w' \<and> \<not> finalized w'
    \<and> slots w' sensor = Some v0"
proof (cases "N_SLOTS \<le> s")
  case True
  with assms show ?thesis by (simp add: update_slot_def)
next
  case False
  show ?thesis
  proof (cases "q = pid")
    case True
    with assms False show ?thesis
      by (auto simp: update_slot_def current_window_def split: option.splits)
  next
    case False
    with assms \<open>\<not> N_SLOTS \<le> s\<close> show ?thesis
      by (auto simp: update_slot_def current_window_def split: option.splits prod.splits)
  qed
qed

lemma update_slots_keep_observed:
  assumes "windows st pid = Some w" and "\<not> finalized w" and "slots w sensor = Some v0"
  shows "slot_of (update_slots calls st) pid sensor = Some v0"
  using assms
proof (induction calls arbitrary: st w)
  case Nil
  then show ?case by (simp add: update_slots_def slot_of_def)
next
  case (Cons c calls)
  obtain q s v ts now where c: "c = (q, s, v, ts, now)" by (cases c)
  obtain w' where w': "windows (update_slot st q s v ts now) pid = Some w'" "\<not> finalized w'"
    "slots w' sensor = Some v0"
    using update_slot_keeps_observed [OF Cons.prems, of q s v ts now] by blast
  from Cons.IH [OF w'] show ?case
    by (simp add: update_slots_def c)
qed

lemma update_slot_stores_first:
  assumes "sensor < N_SLOTS"
    and "case windows st pid of None \<Rightarrow> True | Some w \<Rightarrow> \<not> finalized w \<and> slots w sensor = None"
  shows "\<exists>w'. windows (update_slot st pid sensor v ts now) pid = Some w' \<and> \<not> finalized w'
    \<and> slots w' sensor = Some v"
  using assms
  by (auto simp: update_slot_def current_window_def new_window_def split: option.splits)

text \<open>
  C4. An observed value is never overwritten within its window. In the window store of
  the specification: the first value written to an empty slot of a patient's window is the
  value the slot holds after any further calls of \<open>update_slot\<close>, for that slot or any
  other, and a call for a slot that already holds an observed value leaves the store as it
  was. In the controller: the frame handed to \<open>PacketOut\<close> carries, in every slot that
  came with a value other than 0, the value it came with.
\<close>

theorem observed_slot_never_overwritten:
  "(sensor < N_SLOTS
      \<and> (case windows st pid of None \<Rightarrow> True
          | Some win \<Rightarrow> \<not> finalized win \<and> slots win sensor = None)
      \<longrightarrow> slot_of (update_slots ((pid, sensor, v, ts, t) # calls) st) pid sensor = Some v)
   \<and> (windows st pid = Some win \<and> \<not> finalized win \<and> slots win sensor = Some v0
      \<longrightarrow> update_slot st pid sensor v ts t = st
        \<and> slot_of (update_slots calls st) pid sensor = Some v0)
   \<and> (Ether_dissect bytes = Inr pkt \<and> planter_of pkt = Some p
      \<longrightarrow> (\<exists>p'. new_calls w (parse_packet now bytes w) = [raw (with_planter pkt p')]
            \<and> (\<forall>j. slot_value p j \<noteq> 0 \<longrightarrow> slot_value p' j = slot_value p j)))"
proof -
  have a: "slot_of (update_slots ((pid, sensor, v, ts, t) # calls) st) pid sensor = Some v"
    if "sensor < N_SLOTS
      \<and> (case windows st pid of None \<Rightarrow> True
          | Some win \<Rightarrow> \<not> finalized win \<and> slots win sensor = None)"
  proof -
    from that obtain w' where w': "windows (update_slot st pid sensor v ts t) pid = Some w'"
      "\<not> finalized w'" "slots w' sensor = Some v"
      using update_slot_stores_first [of sensor st pid v ts t] by blast
    have "update_slots ((pid, sensor, v, ts, t) # calls) st
        = update_slots calls (update_slot st pid sensor v ts t)"
      by (simp add: update_slots_def)
    with update_slots_keep_observed [OF w', of calls] show ?thesis by simp
  qed
  have b: "update_slot st pid sensor v ts t = st
        \<and> slot_of (update_slots calls st) pid sensor = Some v0"
    if "windows st pid = Some win \<and> \<not> finalized win \<and> slots win sensor = Some v0"
  proof -
    from that have h: "windows st pid = Some win" "\<not> finalized win" "slots win sensor = Some v0"
      by simp_all
    from update_slot_rejects [OF h] update_slots_keep_observed [OF h] show ?thesis by simp
  qed
  have c: "\<exists>p'. new_calls w (parse_packet now bytes w) = [raw (with_planter pkt p')]
            \<and> (\<forall>j. slot_value p j \<noteq> 0 \<longrightarrow> slot_value p' j = slot_value p j)"
    if "Ether_dissect bytes = Inr pkt \<and> planter_of pkt = Some p"
  proof -
    from that have d: "Ether_dissect bytes = Inr pkt" "planter_of pkt = Some p" by simp_all
    from d show ?thesis
    proof (rule parse_packet_effect [where w = w and now = now])
      fix p'
      assume "new_calls w (parse_packet now bytes w) = [raw (with_planter pkt p')]"
        and "\<And>j. slot_value p j \<noteq> 0 \<Longrightarrow> slot_value p' j = slot_value p j"
      then show ?thesis by blast
    qed
  qed
  from a b c show ?thesis by blast
qed

theorem observed_slot_never_overwritten_witness:
  "(2::nat) < N_SLOTS
   \<and> windows empty_store 7 = None
   \<and> slot_of (update_slots [(7, 2, 80, 100, 0), (7, 2, 85, 100, 1), (7, 3, 120, 100, 1),
                            (7, 2, 90, 100, 2)] empty_store) 7 2 = Some 80
   \<and> windows (update_slot empty_store 7 2 80 100 0) 7
       = Some ((new_window 0 100 0)\<lparr>slots := (\<lambda>i. None)(2 \<mapsto> 80), last_update_at := 0\<rparr>)
   \<and> update_slot (update_slot empty_store 7 2 80 100 0) 7 2 85 100 1
       = update_slot empty_store 7 2 80 100 0
   \<and> Ether_dissect (frame_of planter_gaps) = Inr (hdr0, Planter_layer planter_gaps [])
   \<and> planter_of (hdr0, Planter_layer planter_gaps []) = Some planter_gaps
   \<and> slot_value planter_gaps 1 = 97
   \<and> (\<exists>p'. new_calls world0 (parse_packet ''12:00:00'' (frame_of planter_gaps) world0)
            = [raw (with_planter (hdr0, Planter_layer planter_gaps []) p')]
        \<and> slot_value p' 1 = 97)"
proof -
  have n: "(2::nat) < N_SLOTS" by (simp add: N_SLOTS_def)
  have e: "windows empty_store 7 = None" by (simp add: empty_store_def)
  let ?st = "update_slot empty_store 7 2 80 100 0"
  let ?win = "(new_window 0 100 0)\<lparr>slots := (\<lambda>i. None)(2 \<mapsto> 80), last_update_at := 0\<rparr>"
  have w1: "windows ?st 7 = Some ?win"
    by (simp add: update_slot_def current_window_def empty_store_def N_SLOTS_def new_window_def)
  have w2: "\<not> finalized ?win" "slots ?win 2 = Some 80"
    by (simp_all add: new_window_def)
  from observed_slot_never_overwritten [of 2 empty_store 7 80 100 0
      "[(7, 2, 85, 100, 1), (7, 3, 120, 100, 1), (7, 2, 90, 100, 2)]"] n e
  have a: "slot_of (update_slots [(7, 2, 80, 100, 0), (7, 2, 85, 100, 1), (7, 3, 120, 100, 1),
                            (7, 2, 90, 100, 2)] empty_store) 7 2 = Some 80"
    by simp
  from observed_slot_never_overwritten [of 2 ?st 7 85 100 1 _ ?win 80] w1 w2
  have b: "update_slot ?st 7 2 85 100 1 = ?st"
    by blast
  have d: "Ether_dissect (frame_of planter_gaps) = Inr (hdr0, Planter_layer planter_gaps [])"
    and po: "planter_of (hdr0, Planter_layer planter_gaps []) = Some planter_gaps"
    by (simp_all add: frame_of_dissect)
  have s: "slot_value planter_gaps 1 = 97"
    by (simp add: slot_value_def getattr_feature_def planter_gaps_def)
  from observed_slot_never_overwritten [of _ _ _ _ _ _ _ _ _ "frame_of planter_gaps"
      "(hdr0, Planter_layer planter_gaps [])" planter_gaps world0 "''12:00:00''"] d po
  obtain p' where c: "new_calls world0 (parse_packet ''12:00:00'' (frame_of planter_gaps) world0)
            = [raw (with_planter (hdr0, Planter_layer planter_gaps []) p')]"
    and k: "\<forall>j. slot_value planter_gaps j \<noteq> 0 \<longrightarrow> slot_value p' j = slot_value planter_gaps j"
    by blast
  from k s have "slot_value p' 1 = 97" by simp
  with c have x: "\<exists>p'. new_calls world0 (parse_packet ''12:00:00'' (frame_of planter_gaps) world0)
            = [raw (with_planter (hdr0, Planter_layer planter_gaps []) p')]
        \<and> slot_value p' 1 = 97"
    by blast
  from n e a w1 b d po s x show ?thesis by (intro conjI)
qed

end
